theory Spec2Isabelle
  imports Complex_Main "HOL-Library.Word"
begin

unbundle bit_operations_syntax

section \<open>The trip screen (NavigationScreen)\<close>

text \<open>
  The screen is a React function component. Its \<^verbatim>\<open>useState\<close> cells are the fields of
  the record \<open>screen\<close>; a handler is a function from the state of the render that
  created it to the state after its batched updates; the \<^verbatim>\<open>useEffect\<close> on
  \<^verbatim>\<open>[distance, demandValue, cumulativeTotal]\<close> runs after a commit in which one of the three
  changed. JavaScript numbers are read as real numbers (rounding of doubles is not
  modelled); \<^verbatim>\<open>Date.now()\<close> is an integer number of milliseconds and is passed to the
  handlers that read it. The cells \<^verbatim>\<open>speed\<close>, \<^verbatim>\<open>eta\<close>, \<^verbatim>\<open>activeTab\<close> and the animation values
  are written but never read by the handlers below and are left out. A state of the
  model is a state of the screen after the effects of a commit have run.
\<close>

datatype status = idle | active | resting | completed

record TripState =
  status :: status
  startTime :: "int option"
  restStartTime :: "int option"
  totalRestTime :: int

definition BASE_FARE :: real where
  "BASE_FARE = 2000"

definition FARE_RATE :: real where
  "FARE_RATE = 600"

definition INITIAL_DISTANCE :: real where
  "INITIAL_DISTANCE = 0.1"

definition PRICE_OPTIONS :: "real list" where
  "PRICE_OPTIONS = [500, 1000, 2000, 5000]"

text \<open>
  The callback handed to \<^verbatim>\<open>setInterval\<close> by \<^verbatim>\<open>startTripSimulation\<close> closes over the
  \<^verbatim>\<open>tripState\<close> and \<^verbatim>\<open>demandValue\<close> of the render in which \<^verbatim>\<open>startTrip\<close> was created,
  and over its own local \<^verbatim>\<open>currentDistance\<close>. \<open>tripTimer\<close> is \<open>None\<close> when no interval
  is live (never set, or cleared by \<^verbatim>\<open>clearInterval\<close>). Only \<^verbatim>\<open>startTrip\<close> creates an
  interval, and its button is on screen only in the idle status, which is entered only
  by paths that clear the timer; so one cell holds every live interval.
\<close>

record interval =
  seenStatus :: status
  seenDemand :: real
  currentDistance :: real

record screen =
  tripState :: TripState
  distance :: real
  fare :: real
  showDropoffDialog :: bool
  showCancelButton :: bool
  showDemandModal :: bool
  demandValue :: real
  totalFare :: real
  cumulativeTotal :: real
  recentAdditions :: "real list"
  tripTimer :: "interval option"

definition idleTrip :: TripState where
  "idleTrip = \<lparr>status = idle, startTime = None, restStartTime = None, totalRestTime = 0\<rparr>"

text \<open>The initial values of the \<^verbatim>\<open>useState\<close> cells.\<close>

definition initialScreen :: screen where
  "initialScreen =
     \<lparr>tripState = idleTrip,
      distance = INITIAL_DISTANCE,
      fare = BASE_FARE + (INITIAL_DISTANCE * FARE_RATE),
      showDropoffDialog = False,
      showCancelButton = False,
      showDemandModal = False,
      demandValue = 0,
      totalFare = BASE_FARE,
      cumulativeTotal = 0,
      recentAdditions = [],
      tripTimer = None\<rparr>"

text \<open>The body of the fare effect: the total is recomputed from its four inputs.\<close>

definition fareEffect :: "screen \<Rightarrow> screen" where
  "fareEffect s =
     (let distanceFare = distance s * FARE_RATE;
          calculatedTotal = BASE_FARE + distanceFare + demandValue s + cumulativeTotal s
      in s\<lparr>totalFare := calculatedTotal, fare := calculatedTotal\<rparr>)"

definition fareDeps :: "screen \<Rightarrow> real \<times> real \<times> real" where
  "fareDeps s = (distance s, demandValue s, cumulativeTotal s)"

text \<open>
  Mounting runs both effects once: the fare effect, and the one that shows the cancel
  button when the route parameters carry complete order data.
\<close>

definition mount :: "bool \<Rightarrow> screen" where
  "mount hasCompleteOrderData = (fareEffect initialScreen)\<lparr>showCancelButton := hasCompleteOrderData\<rparr>"

subsection \<open>Handlers\<close>

definition handleDemandSelect :: "real \<Rightarrow> screen \<Rightarrow> screen" where
  "handleDemandSelect selectedDemand s = s\<lparr>demandValue := selectedDemand, showDemandModal := False\<rparr>"

text \<open>\<^verbatim>\<open>prev.slice(-4)\<close>: the last four elements, the whole array when it has fewer.\<close>

definition slice_last4 :: "'a list \<Rightarrow> 'a list" where
  "slice_last4 prev = drop (length prev - 4) prev"

definition handlePriceAdd :: "real \<Rightarrow> screen \<Rightarrow> screen" where
  "handlePriceAdd v s =
     s\<lparr>cumulativeTotal := cumulativeTotal s + v,
       recentAdditions := slice_last4 (recentAdditions s) @ [v]\<rparr>"

text \<open>
  \<^verbatim>\<open>handleClearCumulative\<close> opens an alert; \<open>confirmed\<close> is the operator's answer
  (the \<^verbatim>\<open>Clear\<close> button runs the two resets, \<^verbatim>\<open>Cancel\<close> runs nothing).
\<close>

definition handleClearCumulative :: "bool \<Rightarrow> screen \<Rightarrow> screen" where
  "handleClearCumulative confirmed s =
     (if confirmed then s\<lparr>cumulativeTotal := 0, recentAdditions := []\<rparr> else s)"

definition handleUndoLast :: "screen \<Rightarrow> screen" where
  "handleUndoLast s =
     (if length (recentAdditions s) > 0 then
        (let lastAddition = last (recentAdditions s)
         in s\<lparr>cumulativeTotal := max 0 (cumulativeTotal s - lastAddition),
              recentAdditions := butlast (recentAdditions s)\<rparr>)
      else s)"

definition startTrip :: "int \<Rightarrow> screen \<Rightarrow> screen" where
  "startTrip now s =
     s\<lparr>tripState := \<lparr>status = active, startTime = Some now, restStartTime = None, totalRestTime = 0\<rparr>,
       tripTimer := Some \<lparr>seenStatus = status (tripState s), seenDemand = demandValue s,
                           currentDistance = INITIAL_DISTANCE\<rparr>\<rparr>"

text \<open>
  One firing of the interval callback, \<open>increment\<close> being the value of
  \<^verbatim>\<open>Math.random() * 0.1 + 0.05\<close>. The status it tests is the one the closure captured.
\<close>

definition timerTick :: "real \<Rightarrow> screen \<Rightarrow> screen" where
  "timerTick increment s =
     (case tripTimer s of
        None \<Rightarrow> s
      | Some t \<Rightarrow>
          if seenStatus t = active then
            (let currentDistance' = currentDistance t + increment;
                 newFare = BASE_FARE + (currentDistance' * FARE_RATE) + seenDemand t
             in s\<lparr>distance := currentDistance', fare := newFare,
                  tripTimer := Some (t\<lparr>currentDistance := currentDistance'\<rparr>)\<rparr>)
          else s)"

text \<open>\<^verbatim>\<open>tripState.restStartTime || 0\<close>: zero when the field is null.\<close>

definition orZero :: "int option \<Rightarrow> int" where
  "orZero x = (case x of None \<Rightarrow> 0 | Some t \<Rightarrow> t)"

definition toggleRest :: "int \<Rightarrow> screen \<Rightarrow> screen" where
  "toggleRest now s =
     (if status (tripState s) = active then
        s\<lparr>tripState := (tripState s)\<lparr>status := resting, restStartTime := Some now\<rparr>\<rparr>
      else if status (tripState s) = resting then
        (let restDuration = now - orZero (restStartTime (tripState s))
         in s\<lparr>tripState := (tripState s)\<lparr>status := active, restStartTime := None,
                 totalRestTime := totalRestTime (tripState s) + restDuration\<rparr>\<rparr>)
      else s)"

definition dropOff :: "screen \<Rightarrow> screen" where
  "dropOff s = s\<lparr>showDropoffDialog := True\<rparr>"

definition handleDropoffConfirm :: "screen \<Rightarrow> screen" where
  "handleDropoffConfirm s =
     s\<lparr>tripTimer := None,
       tripState := \<lparr>status = completed, startTime = None, restStartTime = None, totalRestTime = 0\<rparr>\<rparr>"

text \<open>The dialog's confirm button: \<^verbatim>\<open>onConfirm(); onClose();\<close>.\<close>

definition handleConfirm :: "screen \<Rightarrow> screen" where
  "handleConfirm s = (handleDropoffConfirm s)\<lparr>showDropoffDialog := False\<rparr>"

definition resetTrip :: "screen \<Rightarrow> screen" where
  "resetTrip s =
     s\<lparr>tripTimer := None,
       tripState := idleTrip,
       distance := INITIAL_DISTANCE,
       fare := BASE_FARE + (INITIAL_DISTANCE * FARE_RATE) + demandValue s,
       demandValue := 0\<rparr>"

text \<open>The \<^verbatim>\<open>Yes, Cancel\<close> branch of the alert opened by \<^verbatim>\<open>handleCancelOrder\<close>.\<close>

definition handleCancelOrder :: "screen \<Rightarrow> screen" where
  "handleCancelOrder s =
     s\<lparr>tripTimer := None,
       tripState := idleTrip,
       distance := INITIAL_DISTANCE,
       fare := BASE_FARE + (INITIAL_DISTANCE * FARE_RATE),
       demandValue := 0,
       showCancelButton := False\<rparr>"

subsection \<open>Events, commits and runs\<close>

datatype event =
    StartTrip int
  | ToggleRest int
  | DropOff
  | CloseDropoff
  | DropoffConfirm
  | ResetTrip
  | CancelOrder
  | OpenDemand
  | DemandSelect real
  | PriceAdd real
  | UndoLast
  | ClearCumulative
  | TimerTick real

fun handler :: "event \<Rightarrow> screen \<Rightarrow> screen" where
  "handler (StartTrip now) s = startTrip now s"
| "handler (ToggleRest now) s = toggleRest now s"
| "handler DropOff s = dropOff s"
| "handler CloseDropoff s = s\<lparr>showDropoffDialog := False\<rparr>"
| "handler DropoffConfirm s = handleConfirm s"
| "handler ResetTrip s = resetTrip s"
| "handler CancelOrder s = handleCancelOrder s"
| "handler OpenDemand s = s\<lparr>showDemandModal := True\<rparr>"
| "handler (DemandSelect d) s = handleDemandSelect d s"
| "handler (PriceAdd v) s = handlePriceAdd v s"
| "handler UndoLast s = handleUndoLast s"
| "handler ClearCumulative s = handleClearCumulative True s"
| "handler (TimerTick increment) s = timerTick increment s"

text \<open>
  One event: the handler's updates are committed, then the fare effect runs if one of
  its dependencies differs from the previous render.
\<close>

definition dispatch :: "event \<Rightarrow> screen \<Rightarrow> screen" where
  "dispatch e s = (let s' = handler e s in if fareDeps s' = fareDeps s then s' else fareEffect s')"

definition run :: "event list \<Rightarrow> screen \<Rightarrow> screen" where
  "run evs s = fold dispatch evs s"

text \<open>The fare formula of the specification, read off a state.\<close>

definition fareFormula :: "screen \<Rightarrow> real" where
  "fareFormula s = BASE_FARE + distance s * FARE_RATE + demandValue s + cumulativeTotal s"

subsection \<open>Which controls are on screen\<close>

text \<open>
  The JSX renders a control only under a condition on the state: the start button when
  the status is idle, the rest and drop-off buttons when it is active or resting, the
  new-trip button when it is completed, the cancel button when it is idle or completed
  and \<^verbatim>\<open>showCancelButton\<close> holds, the dialog's buttons while the dialog is visible, the
  undo button while the history is non-empty, the clear button while the cumulative
  total is positive, and one price button for each entry of \<^verbatim>\<open>PRICE_OPTIONS\<close>. The tabs
  can be selected in every status, the demand tab's button opens the demand modal, and
  the timer may fire at any time. No control delivers a demand selection: the screen
  hands \<^verbatim>\<open>handleDemandSelect\<close> to the modal as the prop \<^verbatim>\<open>onAdd\<close>, while the modal's options
  call the prop \<^verbatim>\<open>onSelect\<close>, which the screen does not pass. \<open>press\<close> delivers an event
  only if its control is rendered; \<open>presses\<close> is the run of the screen as an operator can
  drive it. That a visible dialog covers the other controls is not modelled, which only
  adds runs.
\<close>

fun enabled :: "screen \<Rightarrow> event \<Rightarrow> bool" where
  "enabled s (StartTrip now) = (status (tripState s) = idle)"
| "enabled s (ToggleRest now) = (status (tripState s) = active \<or> status (tripState s) = resting)"
| "enabled s DropOff = (status (tripState s) = active \<or> status (tripState s) = resting)"
| "enabled s CloseDropoff = showDropoffDialog s"
| "enabled s DropoffConfirm = showDropoffDialog s"
| "enabled s ResetTrip = (status (tripState s) = completed)"
| "enabled s CancelOrder =
     ((status (tripState s) = idle \<or> status (tripState s) = completed) \<and> showCancelButton s)"
| "enabled s OpenDemand = True"
| "enabled s (DemandSelect d) = False"
| "enabled s (PriceAdd v) = (v \<in> set PRICE_OPTIONS)"
| "enabled s UndoLast = (length (recentAdditions s) > 0)"
| "enabled s ClearCumulative = (cumulativeTotal s > 0)"
| "enabled s (TimerTick increment) = True"

definition press :: "event \<Rightarrow> screen \<Rightarrow> screen" where
  "press e s = (if enabled s e then dispatch e s else s)"

definition presses :: "event list \<Rightarrow> screen \<Rightarrow> screen" where
  "presses evs s = fold press evs s"

section \<open>Voice guidance (VoiceGuidance)\<close>

text \<open>
  \<^verbatim>\<open>LocationCoords\<close> and \<^verbatim>\<open>NavigationInstruction\<close> as the services declare them. The
  instruction's fields \<^verbatim>\<open>text\<close>, \<^verbatim>\<open>distance\<close> and \<^verbatim>\<open>duration\<close> are named \<open>itext\<close>,
  \<open>idistance\<close> and \<open>iduration\<close> here.
\<close>

record LocationCoords =
  latitude :: real
  longitude :: real

record NavigationInstruction =
  itext :: string
  idistance :: string
  iduration :: string
  maneuver :: string
  coordinates :: LocationCoords
  streetName :: "string option"
  exitNumber :: "string option"

text \<open>
  The component's props and state. \<open>spoken\<close> is the sequence of texts handed to
  \<^verbatim>\<open>VoiceService.speak\<close>, oldest first; \<^verbatim>\<open>speak\<close> catches its own errors, so the
  assignment to \<^verbatim>\<open>lastSpokenInstruction\<close> after it always runs. The call and the
  assignment that awaits it are taken as one step.
\<close>

record props =
  currentInstruction :: "NavigationInstruction option"
  nextInstruction :: "NavigationInstruction option"
  distanceToNext :: real
  isNavigating :: bool

datatype utterance = Plain string | InMeters int string

record voice =
  isMuted :: bool
  lastSpokenInstruction :: "string option"
  isInitialized :: bool
  spoken :: "utterance list"

text \<open>\<^verbatim>\<open>Math.round\<close>: the nearest integer, halves upwards.\<close>

definition Math_round :: "real \<Rightarrow> int" where
  "Math_round x = \<lfloor>x + 1 / 2\<rfloor>"

text \<open>
  \<open>Plain t\<close> is the text \<^verbatim>\<open>t\<close>, \<open>InMeters n t\<close> the text \<^verbatim>\<open>In n meters, t\<close>.
\<close>

definition speakInstruction :: "NavigationInstruction \<Rightarrow> real \<Rightarrow> voice \<Rightarrow> voice" where
  "speakInstruction instruction d v =
     (let instructionText =
        (if d \<le> 50 then Plain (itext instruction)
         else if d \<le> 100 then InMeters (Math_round d) (itext instruction)
         else InMeters (Math_round (d / 50) * 50) (itext instruction))
      in v\<lparr>spoken := spoken v @ [instructionText],
           lastSpokenInstruction := Some (itext instruction)\<rparr>)"

text \<open>The body of the effect that handles instruction changes.\<close>

definition instructionEffect :: "props \<Rightarrow> voice \<Rightarrow> voice" where
  "instructionEffect p v =
     (case currentInstruction p of
        None \<Rightarrow> v
      | Some ci \<Rightarrow>
          if \<not> isInitialized v \<or> \<not> isNavigating p \<or> isMuted v then v
          else
            (let shouldSpeak =
               (distanceToNext p \<le> 100
                \<or> (distanceToNext p \<le> 500 \<and> Some (itext ci) \<noteq> lastSpokenInstruction v))
             in if shouldSpeak then speakInstruction ci (distanceToNext p) v else v))"

text \<open>
  The effect's dependency array. A render with new props runs the effect when one of
  the dependencies differs from the previous render.
\<close>

definition voiceDeps ::
  "props \<Rightarrow> voice \<Rightarrow> NavigationInstruction option \<times> real \<times> bool \<times> bool \<times> bool" where
  "voiceDeps p v = (currentInstruction p, distanceToNext p, isNavigating p, isMuted v, isInitialized v)"

definition receiveProps :: "props \<Rightarrow> props \<times> voice \<Rightarrow> props \<times> voice" where
  "receiveProps p' pv =
     (case pv of (p, v) \<Rightarrow>
        (p', if voiceDeps p' v = voiceDeps p v then v else instructionEffect p' v))"

definition guidance :: "props list \<Rightarrow> props \<times> voice \<Rightarrow> props \<times> voice" where
  "guidance ps pv = fold receiveProps ps pv"

section \<open>Route progress (updateNavigationProgress)\<close>

record RouteResult =
  route_coordinates :: "LocationCoords list"
  route_distance :: string
  route_duration :: string
  instructions :: "NavigationInstruction list"
  northeast :: LocationCoords
  southwest :: LocationCoords
  polylineEncoded :: string

text \<open>\<^verbatim>\<open>Number.MAX_VALUE\<close>, the largest finite double.\<close>

definition MAX_VALUE :: real where
  "MAX_VALUE = (2 - 1 / 2 ^ 52) * 2 ^ 1023"

text \<open>\<^verbatim>\<open>Math.atan2(y, x)\<close> on real numbers (signed zeros are not distinguished).\<close>

definition Math_atan2 :: "real \<Rightarrow> real \<Rightarrow> real" where
  "Math_atan2 y x =
     (if 0 < x then arctan (y / x)
      else if x < 0 then (if 0 \<le> y then arctan (y / x) + pi else arctan (y / x) - pi)
      else if 0 < y then pi / 2
      else if y < 0 then - (pi / 2)
      else 0)"

text \<open>The haversine distance in metres, as \<^verbatim>\<open>calculateDistance\<close> computes it.\<close>

definition calculateDistance :: "LocationCoords \<Rightarrow> LocationCoords \<Rightarrow> real" where
  "calculateDistance coord1 coord2 =
     (let R = 6371000;
          phi1 = latitude coord1 * pi / 180;
          phi2 = latitude coord2 * pi / 180;
          dphi = (latitude coord2 - latitude coord1) * pi / 180;
          dlambda = (longitude coord2 - longitude coord1) * pi / 180;
          a = sin (dphi / 2) * sin (dphi / 2)
              + cos phi1 * cos phi2 * sin (dlambda / 2) * sin (dlambda / 2);
          c = 2 * Math_atan2 (sqrt a) (sqrt (1 - a))
      in R * c)"

text \<open>
  The callback of \<^verbatim>\<open>route.instructions.forEach\<close>, acting on the two variables
  \<^verbatim>\<open>minDistance\<close> and \<^verbatim>\<open>closestInstruction\<close> it assigns.
\<close>

definition closer ::
  "LocationCoords \<Rightarrow> NavigationInstruction \<Rightarrow> real \<times> NavigationInstruction option
     \<Rightarrow> real \<times> NavigationInstruction option" where
  "closer currentCoords instruction acc =
     (case acc of (minDistance, closestInstruction) \<Rightarrow>
        (let d = calculateDistance currentCoords (coordinates instruction)
         in if d < minDistance then (d, Some instruction) else (minDistance, closestInstruction)))"

text \<open>
  The new value of the \<^verbatim>\<open>currentInstruction\<close> cell; \<open>cur\<close> is its old value, kept when
  the function returns early. \<^verbatim>\<open>route.instructions[0]\<close> of an empty array is
  \<^verbatim>\<open>undefined\<close>, here \<open>None\<close>.
\<close>

definition updateNavigationProgress ::
  "RouteResult option \<Rightarrow> LocationCoords \<Rightarrow> NavigationInstruction option
     \<Rightarrow> NavigationInstruction option" where
  "updateNavigationProgress route currentCoords cur =
     (case route of
        None \<Rightarrow> cur
      | Some r \<Rightarrow>
          snd (fold (closer currentCoords) (instructions r)
                 (MAX_VALUE, (case instructions r of [] \<Rightarrow> None | i # _ \<Rightarrow> Some i))))"

section \<open>Polyline decoding (NavigationService.decodePolyline)\<close>

text \<open>
  The position \<^verbatim>\<open>index\<close> in \<^verbatim>\<open>encoded\<close> is represented by the unread rest of the string.
  \<^verbatim>\<open>charCodeAt\<close> past the end gives \<^verbatim>\<open>NaN\<close>: then \<^verbatim>\<open>byte\<close> is \<^verbatim>\<open>NaN\<close>, \<^verbatim>\<open>byte & 0x1f\<close> is 0,
  \<^verbatim>\<open>result\<close> keeps its value and \<^verbatim>\<open>byte >= 0x20\<close> is false, so the inner loop ends; this is
  the first equation of \<open>readGroup\<close>. No operation of the function throws. The bitwise
  operators work on 32-bit integers and \<^verbatim>\<open><<\<close> takes its shift count modulo 32;
  \<^verbatim>\<open>>>\<close> is the arithmetic shift. \<^verbatim>\<open>lat\<close> and \<^verbatim>\<open>lng\<close> are sums of such integers and are
  read as unbounded integers, the divisions by \<^verbatim>\<open>1e5\<close> as real numbers. Strings are
  sequences of 8-bit characters. The coordinates are listed in the order in which
  \<^verbatim>\<open>push\<close> appends them.
\<close>

fun readGroup :: "string \<Rightarrow> nat \<Rightarrow> 32 word \<Rightarrow> 32 word \<times> string" where
  "readGroup [] shift result = (result, [])"
| "readGroup (c # cs) shift result =
     (let byte = int (of_char c) - 63;
          result' = result OR push_bit (shift mod 32) (word_of_int byte AND 0x1f)
      in if byte \<ge> 0x20 then readGroup cs (shift + 5) result' else (result', cs))"

text \<open>\<^verbatim>\<open>(result & 1) !== 0 ? ~(result >> 1) : (result >> 1)\<close>, as a number.\<close>

definition delta :: "32 word \<Rightarrow> int" where
  "delta result =
     (if result AND 1 \<noteq> 0 then sint (NOT (signed_drop_bit 1 result))
      else sint (signed_drop_bit 1 result))"

lemma readGroup_length: "length (snd (readGroup s shift result)) \<le> length s"
proof (induction s arbitrary: shift result)
  case Nil
  then show ?case by simp
next
  case (Cons c cs)
  show ?case
    using Cons.IH [of "shift + 5"] by (simp add: Let_def le_SucI)
qed

lemma readGroup_shorter: "s \<noteq> [] \<Longrightarrow> length (snd (readGroup s shift result)) < length s"
  using readGroup_length by (cases s) (auto simp add: Let_def less_Suc_eq_le)

function decodeFrom :: "string \<Rightarrow> int \<Rightarrow> int \<Rightarrow> LocationCoords list" where
  "decodeFrom encoded lat lng =
     (if encoded = [] then []
      else
        (case readGroup encoded 0 0 of (result1, rest1) \<Rightarrow>
           (let lat' = lat + delta result1
            in case readGroup rest1 0 0 of (result2, rest2) \<Rightarrow>
                 (let lng' = lng + delta result2
                  in \<lparr>latitude = real_of_int lat' / 100000, longitude = real_of_int lng' / 100000\<rparr>
                       # decodeFrom rest2 lat' lng'))))"
  by pat_completeness auto
termination
proof (relation "measure (\<lambda>(encoded, lat, lng). length encoded)")
  show "wf (measure (\<lambda>(encoded, lat, lng). length encoded))" by simp
next
  fix encoded :: string and lat lng :: int and x r1 rest1 lat' x' r2 rest2 lng'
  assume ne: "encoded \<noteq> []" and g1: "(r1, rest1) = readGroup encoded 0 0"
    and g2: "(r2, rest2) = readGroup rest1 0 0"
  have "length rest2 \<le> length rest1"
    using readGroup_length [of rest1 0 0] g2 [symmetric] by simp
  moreover have "length rest1 < length encoded"
    using readGroup_shorter [OF ne, of 0 0] g1 [symmetric] by simp
  ultimately show "((rest2, lat', lng'), encoded, lat, lng) \<in> measure (\<lambda>(encoded, lat, lng). length encoded)"
    by simp
qed

declare decodeFrom.simps [simp del]

definition decodePolyline :: "string \<Rightarrow> LocationCoords list" where
  "decodePolyline encoded = decodeFrom encoded 0 0"

section \<open>Notions of the specification\<close>

text \<open>
  \<open>listed st e\<close> follows the specification's table of transitions: start from idle,
  toggle rest from active or resting, confirmed drop-off from active or resting, cancel
  from every state, reset from completed. Events that are not in the table (fare inputs,
  the timer, opening and closing dialogs) are not constrained by it.
\<close>

fun listed :: "status \<Rightarrow> event \<Rightarrow> bool" where
  "listed st (StartTrip now) = (st = idle)"
| "listed st (ToggleRest now) = (st = active \<or> st = resting)"
| "listed st DropoffConfirm = (st = active \<or> st = resting)"
| "listed st CancelOrder = True"
| "listed st ResetTrip = (st = completed)"
| "listed st e = True"

text \<open>
  The invariant as the specification words it; \<open>started\<close> says whether the trip had been
  started before it was completed.
\<close>

definition spec_timestamps :: "bool \<Rightarrow> TripState \<Rightarrow> bool" where
  "spec_timestamps started t =
     ((restStartTime t \<noteq> None) = (status t = resting)
      \<and> (startTime t \<noteq> None) =
          (status t = active \<or> status t = resting \<or> (status t = completed \<and> started)))"

text \<open>
  A continuation byte: \<^verbatim>\<open>byte >= 0x20\<close> holds, so the group goes on. A string ends in the
  middle of a codepoint when it is not empty and its last byte is a continuation byte.
\<close>

definition continues :: "char \<Rightarrow> bool" where
  "continues c = (0x20 \<le> int (of_char c) - 63)"

definition endsMidCodepoint :: "string \<Rightarrow> bool" where
  "endsMidCodepoint encoded = (encoded \<noteq> [] \<and> continues (last encoded))"

text \<open>
  Modelled from the spec: the polyline encoder, which the repository does not contain.
  The specification names the classic signed-varint delta encoding: coordinates scaled by
  \<^verbatim>\<open>1e5\<close> and rounded, each value written as the difference to the previous point, the
  sign folded into the lowest bit (zig-zag), the result cut into 5-bit groups from the
  least significant end, every group but the last carrying the continuation bit
  \<^verbatim>\<open>0x20\<close>, and 63 added to give a printable character. \<open>encodeUnsigned\<close> writes the
  groups of one non-negative value.
\<close>

function encodeUnsigned :: "nat \<Rightarrow> string" where
  "encodeUnsigned n =
     (if n \<ge> 0x20 then char_of ((0x20 + n mod 0x20) + 63) # encodeUnsigned (n div 0x20)
      else [char_of (n + 63)])"
  by pat_completeness auto
termination
  by (relation "measure (\<lambda>n. n)") auto

declare encodeUnsigned.simps [simp del]

text \<open>
  Modelled from the spec: the zig-zag step of the encoder, missing from the repository
  with it. A negative value \<open>v\<close> is written as \<open>-2v - 1\<close>, any other as \<open>2v\<close>.
\<close>

definition encodeSigned :: "int \<Rightarrow> string" where
  "encodeSigned v = encodeUnsigned (nat (if v < 0 then - (2 * v) - 1 else 2 * v))"

text \<open>
  Modelled from the spec: the encoder's scaling by \<^verbatim>\<open>1e5\<close> with rounding to the nearest
  integer.
\<close>

definition e5 :: "real \<Rightarrow> int" where
  "e5 x = round (x * 100000)"

text \<open>
  Modelled from the spec: the encoder's loop over the points, each written as the
  differences of its scaled latitude and longitude to those of the previous point
  (\<open>plat\<close>, \<open>plng\<close>), and the encoder itself, which starts from 0 and 0.
\<close>

fun encodeFrom :: "LocationCoords list \<Rightarrow> int \<Rightarrow> int \<Rightarrow> string" where
  "encodeFrom [] plat plng = []"
| "encodeFrom (p # ps) plat plng =
     (let lat = e5 (latitude p); lng = e5 (longitude p)
      in encodeSigned (lat - plat) @ encodeSigned (lng - plng) @ encodeFrom ps lat lng)"

definition encodePolyline :: "LocationCoords list \<Rightarrow> string" where
  "encodePolyline ps = encodeFrom ps 0 0"

text \<open>
  A coordinate in degrees (WGS-84), and the coordinate the encoder actually writes: both
  components rounded to a multiple of \<^verbatim>\<open>1e-5\<close>.
\<close>

definition validCoord :: "LocationCoords \<Rightarrow> bool" where
  "validCoord p = (\<bar>latitude p\<bar> \<le> 90 \<and> \<bar>longitude p\<bar> \<le> 180)"

definition quantise :: "LocationCoords \<Rightarrow> LocationCoords" where
  "quantise p =
     \<lparr>latitude = real_of_int (e5 (latitude p)) / 100000,
      longitude = real_of_int (e5 (longitude p)) / 100000\<rparr>"

section \<open>Invariants and example data\<close>

text \<open>The invariant the handlers keep: completion clears the start time as well.\<close>

definition code_timestamps :: "TripState \<Rightarrow> bool" where
  "code_timestamps t =
     ((restStartTime t \<noteq> None) = (status t = resting)
      \<and> (startTime t \<noteq> None) = (status t = active \<or> status t = resting))"


definition dialog_inv :: "screen \<Rightarrow> bool" where
  "dialog_inv s =
     (\<not> showDropoffDialog s \<or> status (tripState s) = active \<or> status (tripState s) = resting)"

definition cumulative_inv :: "screen \<Rightarrow> bool" where
  "cumulative_inv s = (length (recentAdditions s) \<le> 5 \<and> 0 \<le> cumulativeTotal s)"

definition history_inv :: "screen \<Rightarrow> bool" where
  "history_inv s =
     (sum_list (recentAdditions s) \<le> cumulativeTotal s
      \<and> list_all (\<lambda>x. 0 \<le> x) (recentAdditions s))"

definition stale_timer :: "screen \<Rightarrow> bool" where
  "stale_timer s =
     (distance s = INITIAL_DISTANCE
      \<and> (case tripTimer s of None \<Rightarrow> True | Some t \<Rightarrow> seenStatus t = idle))"

text \<open>
  A navigating component whose voice service is initialised, before the first
  instruction arrives.
\<close>

definition readyVoice :: voice where
  "readyVoice = \<lparr>isMuted = False, lastSpokenInstruction = None, isInitialized = True, spoken = []\<rparr>"

definition noInstruction :: props where
  "noInstruction =
     \<lparr>currentInstruction = None, nextInstruction = None, distanceToNext = 0, isNavigating = True\<rparr>"

definition instructionNamed :: "string \<Rightarrow> NavigationInstruction" where
  "instructionNamed t =
     \<lparr>itext = t, idistance = [], iduration = [], maneuver = ''straight'',
      coordinates = \<lparr>latitude = 0, longitude = 0\<rparr>, streetName = None, exitNumber = None\<rparr>"

definition atDistance :: "string \<Rightarrow> real \<Rightarrow> props" where
  "atDistance t d =
     \<lparr>currentInstruction = Some (instructionNamed t), nextInstruction = None,
      distanceToNext = d, isNavigating = True\<rparr>"

text \<open>A route that carries the given instructions and nothing else.\<close>

definition routeWith :: "NavigationInstruction list \<Rightarrow> RouteResult" where
  "routeWith steps =
     \<lparr>route_coordinates = [], route_distance = [], route_duration = [], instructions = steps,
      northeast = \<lparr>latitude = 0, longitude = 0\<rparr>, southwest = \<lparr>latitude = 0, longitude = 0\<rparr>,
      polylineEncoded = []\<rparr>"

text \<open>The three points of the worked example in the encoding's documentation.\<close>

definition googleExample :: "LocationCoords list" where
  "googleExample =
     [\<lparr>latitude = 38.5, longitude = -120.2\<rparr>,
      \<lparr>latitude = 40.7, longitude = -120.95\<rparr>,
      \<lparr>latitude = 43.252, longitude = -126.453\<rparr>]"

section \<open>Commits and projections\<close>

lemmas handler_defs = startTrip_def toggleRest_def dropOff_def handleConfirm_def
  handleDropoffConfirm_def resetTrip_def handleCancelOrder_def handleDemandSelect_def
  handlePriceAdd_def handleUndoLast_def handleClearCumulative_def timerTick_def

lemmas mount_defs = mount_def fareEffect_def initialScreen_def idleTrip_def Let_def

lemmas fare_consts = BASE_FARE_def FARE_RATE_def INITIAL_DISTANCE_def

lemma fareEffect_fields:
  "tripState (fareEffect s) = tripState s"
  "tripTimer (fareEffect s) = tripTimer s"
  "recentAdditions (fareEffect s) = recentAdditions s"
  "cumulativeTotal (fareEffect s) = cumulativeTotal s"
  "distance (fareEffect s) = distance s"
  "demandValue (fareEffect s) = demandValue s"
  "showDropoffDialog (fareEffect s) = showDropoffDialog s"
  by (simp_all add: fareEffect_def Let_def)

lemma dispatch_fields:
  "tripState (dispatch e s) = tripState (handler e s)"
  "tripTimer (dispatch e s) = tripTimer (handler e s)"
  "recentAdditions (dispatch e s) = recentAdditions (handler e s)"
  "cumulativeTotal (dispatch e s) = cumulativeTotal (handler e s)"
  "distance (dispatch e s) = distance (handler e s)"
  "demandValue (dispatch e s) = demandValue (handler e s)"
  "showDropoffDialog (dispatch e s) = showDropoffDialog (handler e s)"
  by (simp_all add: dispatch_def Let_def fareEffect_fields)

lemma mount_fields:
  "tripState (mount h) = idleTrip"
  "tripTimer (mount h) = None"
  "recentAdditions (mount h) = []"
  "cumulativeTotal (mount h) = 0"
  "distance (mount h) = INITIAL_DISTANCE"
  "demandValue (mount h) = 0"
  "showDropoffDialog (mount h) = False"
  by (simp_all add: mount_defs)

lemma run_snoc: "run (evs @ [e]) s = dispatch e (run evs s)"
  by (simp add: run_def)

lemma dispatch_PriceAdd:
  "cumulativeTotal (dispatch (PriceAdd v) s) = cumulativeTotal s + v"
  "recentAdditions (dispatch (PriceAdd v) s) = slice_last4 (recentAdditions s) @ [v]"
  by (simp_all add: dispatch_fields handlePriceAdd_def)

lemma dispatch_UndoLast:
  "cumulativeTotal (dispatch UndoLast s) =
     (if recentAdditions s = [] then cumulativeTotal s
      else max 0 (cumulativeTotal s - last (recentAdditions s)))"
  "recentAdditions (dispatch UndoLast s) = butlast (recentAdditions s)"
  by (simp_all add: dispatch_fields handleUndoLast_def Let_def)

section \<open>Fare total\<close>

lemma handler_totalFare: "totalFare (handler e s) = totalFare s"
  by (cases e) (simp_all add: handler_defs Let_def split: option.split)

lemma fareEffect_formula: "totalFare (fareEffect s) = fareFormula (fareEffect s)"
  by (simp add: fareEffect_def fareFormula_def Let_def)

lemma dispatch_formula:
  assumes "totalFare s = fareFormula s"
  shows "totalFare (dispatch e s) = fareFormula (dispatch e s)"
proof (cases "fareDeps (handler e s) = fareDeps s")
  case True
  then have "fareFormula (handler e s) = fareFormula s"
    by (simp add: fareDeps_def fareFormula_def)
  with True assms show ?thesis
    by (simp add: dispatch_def handler_totalFare)
next
  case False
  then show ?thesis
    by (simp add: dispatch_def fareEffect_formula)
qed

lemma mount_formula: "totalFare (mount h) = fareFormula (mount h)"
  by (simp add: mount_def fareEffect_def fareFormula_def Let_def)

lemma run_formula:
  "totalFare s = fareFormula s \<Longrightarrow> totalFare (run evs s) = fareFormula (run evs s)"
  unfolding run_def
  by (induction evs arbitrary: s) (simp_all add: dispatch_formula)

lemma presses_formula:
  "totalFare s = fareFormula s \<Longrightarrow> totalFare (presses evs s) = fareFormula (presses evs s)"
  unfolding presses_def
  by (induction evs arbitrary: s) (simp_all add: press_def dispatch_formula)

lemma mount_total: "totalFare (mount h) = 2060"
  by (simp add: mount_def fareEffect_def initialScreen_def BASE_FARE_def FARE_RATE_def
      INITIAL_DISTANCE_def Let_def)

lemma demand_total: "totalFare (run [DemandSelect 1000] (mount h)) = 3060"
  by (simp add: run_def dispatch_def handleDemandSelect_def fareDeps_def mount_def fareEffect_def
      initialScreen_def BASE_FARE_def FARE_RATE_def INITIAL_DISTANCE_def Let_def)

lemma demand_add_total: "totalFare (run [DemandSelect 1000, PriceAdd 500] (mount h)) = 3560"
  by (simp add: run_def dispatch_def handleDemandSelect_def handlePriceAdd_def slice_last4_def
      fareDeps_def mount_def fareEffect_def initialScreen_def BASE_FARE_def FARE_RATE_def
      INITIAL_DISTANCE_def Let_def)

text \<open>
  C1. After any sequence of events, and so after any run through the rendered controls,
  the total fare equals base fare + distance \<times> rate + demand surcharge + cumulative
  additions, with base fare 2000 and rate 600; on the freshly mounted screen (distance
  0.1 km) it is 2060, after selecting the demand tier 1000 it is 3060, and after then
  adding the increment 500 it is 3560.
\<close>

theorem fare_total_formula:
  "totalFare (run evs (mount h)) =
     BASE_FARE + distance (run evs (mount h)) * FARE_RATE
       + demandValue (run evs (mount h)) + cumulativeTotal (run evs (mount h))
   \<and> totalFare (presses evs (mount h)) =
     BASE_FARE + distance (presses evs (mount h)) * FARE_RATE
       + demandValue (presses evs (mount h)) + cumulativeTotal (presses evs (mount h))
   \<and> BASE_FARE = 2000 \<and> FARE_RATE = 600 \<and> distance (mount h) = 0.1
   \<and> totalFare (mount h) = 2060
   \<and> totalFare (run [DemandSelect 1000] (mount h)) = 3060
   \<and> totalFare (run [DemandSelect 1000, PriceAdd 500] (mount h)) = 3560"
proof -
  have "totalFare (run evs (mount h)) = fareFormula (run evs (mount h))"
    by (rule run_formula) (rule mount_formula)
  moreover have "totalFare (presses evs (mount h)) = fareFormula (presses evs (mount h))"
    by (rule presses_formula) (rule mount_formula)
  moreover have "distance (mount h) = 0.1"
    by (simp add: mount_fields INITIAL_DISTANCE_def)
  ultimately show ?thesis
    by (simp add: fareFormula_def mount_total demand_total demand_add_total BASE_FARE_def
        FARE_RATE_def)
qed

text \<open>
  The cell \<open>fare\<close>, shown in the counters row, is also written directly by the timer, by
  \<open>resetTrip\<close> and by \<open>handleCancelOrder\<close>, without the cumulative additions. When such a
  write changes none of the effect's dependencies the effect does not run, and \<open>fare\<close>
  stays behind \<open>totalFare\<close>.
\<close>

lemma fare_cell_after_reset:
  "fare (presses [PriceAdd 500, StartTrip 0, DropOff, DropoffConfirm, ResetTrip] (mount h)) = 2060
   \<and> totalFare (presses [PriceAdd 500, StartTrip 0, DropOff, DropoffConfirm, ResetTrip] (mount h))
       = 2560"
  by (simp add: presses_def press_def dispatch_def handler_defs fareDeps_def mount_defs
      PRICE_OPTIONS_def slice_last4_def fare_consts)

section \<open>Fare after completion\<close>












text \<open>
  The interval callback tests the status captured when the Start button was pressed,
  which is idle; so on every run through the rendered controls no tick passes the test
  and the distance stays at its initial value.
\<close>

lemma press_stale_timer: "stale_timer s \<Longrightarrow> stale_timer (press e s)"
  by (cases e)
    (auto simp add: press_def dispatch_fields handler_defs Let_def stale_timer_def
      split: option.splits)

lemma presses_stale_timer: "stale_timer s \<Longrightarrow> stale_timer (presses evs s)"
  unfolding presses_def by (induction evs arbitrary: s) (simp_all add: press_stale_timer)

lemma simulation_never_advances: "distance (presses evs (mount h)) = INITIAL_DISTANCE"
proof -
  have "stale_timer (mount h)"
    by (simp add: stale_timer_def mount_fields)
  then have "stale_timer (presses evs (mount h))"
    by (rule presses_stale_timer)
  then show ?thesis
    by (simp add: stale_timer_def)
qed

section \<open>Voice announcements\<close>

lemma Math_round_of_int: "Math_round (of_int n) = n"
  unfolding Math_round_def by linarith

lemma Math_round_vals: "Math_round 80 = 80" "Math_round 60 = 60" "Math_round 9 = 9"
  using Math_round_of_int [of 80] Math_round_of_int [of 60] Math_round_of_int [of 9]
  by simp_all

text \<open>
  C3, as stated, fails on its own example. Instruction A at 80 m is announced, the same
  instruction A at 60 m is announced again, and B at 450 m is announced: three
  announcements, not two.
\<close>

theorem same_instruction_reannounced:
  "spoken (snd (guidance [atDistance ''A'' 80, atDistance ''A'' 60, atDistance ''B'' 450]
      (noInstruction, readyVoice)))
   = [InMeters 80 ''A'', InMeters 60 ''A'', InMeters 450 ''B'']"
  by (simp add: guidance_def receiveProps_def voiceDeps_def instructionEffect_def
      speakInstruction_def atDistance_def instructionNamed_def noInstruction_def readyVoice_def
      Math_round_vals Let_def)

lemma effect_speaks_iff:
  "spoken (instructionEffect p v) \<noteq> spoken v \<longleftrightarrow>
     (isInitialized v \<and> isNavigating p \<and> \<not> isMuted v
      \<and> (\<exists>ci. currentInstruction p = Some ci
            \<and> (distanceToNext p \<le> 100
                \<or> (distanceToNext p \<le> 500 \<and> Some (itext ci) \<noteq> lastSpokenInstruction v))))"
  by (cases "currentInstruction p")
    (auto simp add: instructionEffect_def speakInstruction_def Let_def)

lemma effect_records:
  "currentInstruction p = Some ci \<Longrightarrow> spoken (instructionEffect p v) \<noteq> spoken v
     \<Longrightarrow> lastSpokenInstruction (instructionEffect p v) = Some (itext ci)"
  by (auto simp add: instructionEffect_def speakInstruction_def Let_def split: if_splits)

lemma effect_silent_between:
  "currentInstruction p = Some ci \<Longrightarrow> lastSpokenInstruction v = Some (itext ci)
     \<Longrightarrow> 100 < distanceToNext p \<Longrightarrow> instructionEffect p v = v"
  by (simp add: instructionEffect_def Let_def)

lemma guidance_example:
  "spoken (snd (guidance [atDistance ''A'' 300, atDistance ''A'' 250, atDistance ''A'' 80,
      atDistance ''A'' 60, atDistance ''B'' 450] (noInstruction, readyVoice)))
   = [InMeters 300 ''A'', InMeters 80 ''A'', InMeters 60 ''A'', InMeters 450 ''B'']"
  using Math_round_of_int [of 6]
  by (simp add: guidance_def receiveProps_def voiceDeps_def instructionEffect_def
      speakInstruction_def atDistance_def instructionNamed_def noInstruction_def readyVoice_def
      Math_round_vals Let_def)

text \<open>
  C3, amended. The effect speaks exactly when the voice service is initialised,
  navigation is on, the component is not muted, there is a current instruction, and
  either the distance is at most 100 m, or it is at most 500 m and the instruction's text
  differs from the last announced one. After speaking, the text is recorded. The same
  instruction is therefore not announced again while the distance stays above 100 m, but
  within 100 m every update announces it again: A at 300 m is announced, A at 250 m is
  not, A at 80 m is, A at 60 m is again, B at 450 m is.
\<close>

theorem announcement_gate:
  "(spoken (instructionEffect p v) \<noteq> spoken v \<longleftrightarrow>
      (isInitialized v \<and> isNavigating p \<and> \<not> isMuted v
       \<and> (\<exists>ci. currentInstruction p = Some ci
             \<and> (distanceToNext p \<le> 100
                 \<or> (distanceToNext p \<le> 500 \<and> Some (itext ci) \<noteq> lastSpokenInstruction v)))))
   \<and> (currentInstruction p = Some ci \<and> spoken (instructionEffect p v) \<noteq> spoken v
        \<longrightarrow> lastSpokenInstruction (instructionEffect p v) = Some (itext ci))
   \<and> (currentInstruction p = Some ci \<and> lastSpokenInstruction v = Some (itext ci)
        \<and> 100 < distanceToNext p \<longrightarrow> instructionEffect p v = v)
   \<and> spoken (snd (guidance [atDistance ''A'' 300, atDistance ''A'' 250, atDistance ''A'' 80,
        atDistance ''A'' 60, atDistance ''B'' 450] (noInstruction, readyVoice)))
      = [InMeters 300 ''A'', InMeters 80 ''A'', InMeters 60 ''A'', InMeters 450 ''B'']"
  using effect_speaks_iff [of p v] effect_records [of p ci v] effect_silent_between [of p ci v]
    guidance_example
  by blast

text \<open>
  Witness for C3: after A was announced at 300 m, A at 250 m changes nothing; after A was
  announced at 80 m, A at 60 m speaks.
\<close>

theorem announcement_gate_witness:
  "currentInstruction (atDistance ''A'' 250) = Some (instructionNamed ''A'')
   \<and> lastSpokenInstruction (speakInstruction (instructionNamed ''A'') 300 readyVoice)
       = Some (itext (instructionNamed ''A''))
   \<and> 100 < distanceToNext (atDistance ''A'' 250)
   \<and> instructionEffect (atDistance ''A'' 250) (speakInstruction (instructionNamed ''A'') 300 readyVoice)
       = speakInstruction (instructionNamed ''A'') 300 readyVoice
   \<and> spoken (instructionEffect (atDistance ''A'' 60)
         (speakInstruction (instructionNamed ''A'') 80 readyVoice))
       \<noteq> spoken (speakInstruction (instructionNamed ''A'') 80 readyVoice)"
proof -
  have a: "currentInstruction (atDistance ''A'' 250) = Some (instructionNamed ''A'')"
    by (simp add: atDistance_def)
  have b: "lastSpokenInstruction (speakInstruction (instructionNamed ''A'') 300 readyVoice)
      = Some (itext (instructionNamed ''A''))"
    by (simp add: speakInstruction_def Let_def)
  have c: "100 < distanceToNext (atDistance ''A'' 250)"
    by (simp add: atDistance_def)
  have d: "isInitialized (speakInstruction (instructionNamed ''A'') 80 readyVoice)
      \<and> isNavigating (atDistance ''A'' 60)
      \<and> \<not> isMuted (speakInstruction (instructionNamed ''A'') 80 readyVoice)
      \<and> currentInstruction (atDistance ''A'' 60) = Some (instructionNamed ''A'')
      \<and> distanceToNext (atDistance ''A'' 60) \<le> 100"
    by (simp add: atDistance_def speakInstruction_def readyVoice_def Let_def)
  from a b c
    announcement_gate [of "atDistance ''A'' 250"
      "speakInstruction (instructionNamed ''A'') 300 readyVoice" "instructionNamed ''A''"]
  have e: "instructionEffect (atDistance ''A'' 250)
      (speakInstruction (instructionNamed ''A'') 300 readyVoice)
      = speakInstruction (instructionNamed ''A'') 300 readyVoice"
    by blast
  from d
    announcement_gate [of "atDistance ''A'' 60"
      "speakInstruction (instructionNamed ''A'') 80 readyVoice" "instructionNamed ''A''"]
  have f: "spoken (instructionEffect (atDistance ''A'' 60)
         (speakInstruction (instructionNamed ''A'') 80 readyVoice))
       \<noteq> spoken (speakInstruction (instructionNamed ''A'') 80 readyVoice)"
    by blast
  from a b c e f show ?thesis by blast
qed

section \<open>Events outside the transition table\<close>

lemma press_dialog_inv: "dialog_inv s \<Longrightarrow> dialog_inv (press e s)"
  by (cases e)
    (auto simp add: press_def dispatch_fields handler_defs Let_def dialog_inv_def idleTrip_def
      split: option.split)

lemma presses_dialog_inv: "dialog_inv s \<Longrightarrow> dialog_inv (presses evs s)"
  unfolding presses_def by (induction evs arbitrary: s) (simp_all add: press_dialog_inv)

lemma mount_dialog_inv: "dialog_inv (mount h)"
  by (simp add: dialog_inv_def mount_fields)

lemma enabled_listed: "dialog_inv s \<Longrightarrow> enabled s e \<Longrightarrow> listed (status (tripState s)) e"
  by (cases e) (auto simp: dialog_inv_def)

text \<open>
  C4. In every state reached from the mounted screen through the rendered controls, an
  event that the table does not list for the current status leaves the whole state, and
  so TripState, unchanged: its control is not on screen, and nothing is raised. In
  particular, while the status is idle the rest toggle, the Drop Off button and the
  dialog's confirm button change nothing. Moreover \<open>toggleRest\<close> itself returns the state
  it was given whenever its transition is not listed (idle or completed), \<open>dropOff\<close> only
  opens the dialog and leaves TripState as it was in every status. The other handlers
  carry no test of the status: their controls are rendered only in the statuses for
  which the table lists them, so each control that is on screen triggers a transition
  that the table lists for the current status.
\<close>

theorem unlisted_events_not_applied:
  "(\<not> listed (status (tripState (presses evs (mount h)))) e \<longrightarrow>
        press e (presses evs (mount h)) = presses evs (mount h))
   \<and> (status (tripState (presses evs (mount h))) = idle \<longrightarrow>
        press (ToggleRest now) (presses evs (mount h)) = presses evs (mount h)
        \<and> press DropOff (presses evs (mount h)) = presses evs (mount h)
        \<and> press DropoffConfirm (presses evs (mount h)) = presses evs (mount h))
   \<and> (\<not> listed (status (tripState s)) (ToggleRest now) \<longrightarrow> toggleRest now s = s)
   \<and> tripState (dropOff s) = tripState s
   \<and> (enabled (presses evs (mount h)) e \<longrightarrow>
        listed (status (tripState (presses evs (mount h)))) e)"
proof -
  let ?S = "presses evs (mount h)"
  have inv: "dialog_inv ?S"
    by (rule presses_dialog_inv) (rule mount_dialog_inv)
  then have on_screen: "enabled ?S e \<longrightarrow> listed (status (tripState ?S)) e"
    by (simp add: enabled_listed)
  then have unlisted: "\<not> listed (status (tripState ?S)) e \<longrightarrow> press e ?S = ?S"
    by (auto simp add: press_def)
  have idle_case: "status (tripState ?S) = idle \<longrightarrow>
      press (ToggleRest now) ?S = ?S \<and> press DropOff ?S = ?S \<and> press DropoffConfirm ?S = ?S"
    using inv by (auto simp add: press_def dialog_inv_def)
  have handlers: "(\<not> listed (status (tripState s)) (ToggleRest now) \<longrightarrow> toggleRest now s = s)
      \<and> tripState (dropOff s) = tripState s"
    by (simp add: toggleRest_def dropOff_def)
  from unlisted idle_case handlers on_screen show ?thesis
    by blast
qed

text \<open>
  Witness for C4: on the mounted, idle screen the rest toggle, the Drop Off button and
  the dialog's confirm button change nothing, and \<open>toggleRest\<close> returns the state it was
  given; after start and drop off the dialog's confirm button is on screen and listed.
\<close>

theorem unlisted_events_not_applied_witness:
  "status (tripState (presses [] (mount False))) = idle
   \<and> \<not> listed (status (tripState (presses [] (mount False)))) DropoffConfirm
   \<and> press DropoffConfirm (presses [] (mount False)) = presses [] (mount False)
   \<and> press (ToggleRest 5) (presses [] (mount False)) = presses [] (mount False)
   \<and> press DropOff (presses [] (mount False)) = presses [] (mount False)
   \<and> \<not> listed (status (tripState (mount False))) (ToggleRest 5)
   \<and> toggleRest 5 (mount False) = mount False
   \<and> enabled (presses [StartTrip 1, DropOff] (mount False)) DropoffConfirm
   \<and> listed (status (tripState (presses [StartTrip 1, DropOff] (mount False)))) DropoffConfirm"
proof -
  have a: "status (tripState (presses [] (mount False))) = idle"
    by (simp add: presses_def mount_fields idleTrip_def)
  have b: "\<not> listed (status (tripState (mount False))) (ToggleRest 5)"
    by (simp add: mount_fields idleTrip_def)
  have c: "enabled (presses [StartTrip 1, DropOff] (mount False)) DropoffConfirm"
    by (simp add: presses_def press_def dispatch_fields handler_defs mount_fields idleTrip_def)
  from a b c
    unlisted_events_not_applied [of "[]" False DropoffConfirm 5 "mount False"]
    unlisted_events_not_applied [of "[StartTrip 1, DropOff]" False DropoffConfirm 5 "mount False"]
  show ?thesis by simp
qed

section \<open>Closest instruction\<close>

lemma atan2_le_pi: "Math_atan2 y x \<le> pi"
proof -
  have pos: "arctan (y / x) \<le> pi"
    using arctan_ubound [of "y / x"] pi_ge_two by linarith
  have neg: "arctan (y / x) + pi \<le> pi" if "x < 0" and "0 \<le> y"
  proof -
    from that have "y / x \<le> 0"
      by (simp add: divide_nonneg_neg)
    then have "arctan (y / x) \<le> arctan 0"
      by (simp only: arctan_le_iff)
    then show ?thesis by simp
  qed
  have low: "arctan (y / x) - pi \<le> pi"
    using pos pi_ge_two by linarith
  have half: "pi / 2 \<le> pi" "- (pi / 2) \<le> pi" "0 \<le> pi"
    using pi_ge_two by simp_all
  show ?thesis
    unfolding Math_atan2_def using pos neg low half by presburger
qed

lemma MAX_VALUE_big: "(160000000::real) < MAX_VALUE"
proof -
  have "(2::real) ^ 28 \<le> 2 ^ 1023"
    by (rule power_increasing) simp_all
  moreover have "(160000000::real) < 1 * 2 ^ 28" by simp
  moreover have "(1::real) \<le> 2 - 1 / 2 ^ 52" by simp
  ultimately have "1 * (2::real) ^ 28 \<le> (2 - 1 / 2 ^ 52) * 2 ^ 1023"
    by (intro mult_mono) simp_all
  with \<open>(160000000::real) < 1 * 2 ^ 28\<close> show ?thesis
    unfolding MAX_VALUE_def by linarith
qed

lemma calculateDistance_bound: "calculateDistance a b < MAX_VALUE"
proof -
  have "calculateDistance a b \<le> 6371000 * (2 * pi)"
    using atan2_le_pi by (simp add: calculateDistance_def Let_def)
  also have "\<dots> < 160000000"
    using pi_less_4 by simp
  finally show ?thesis
    using MAX_VALUE_big by simp
qed

lemma fold_closer_first_min:
  assumes "k < length ys" and "c = Some (ys ! k)"
    and "m = calculateDistance pos (coordinates (ys ! k))"
    and "\<forall>j < length ys. m \<le> calculateDistance pos (coordinates (ys ! j))"
    and "\<forall>j < k. m < calculateDistance pos (coordinates (ys ! j))"
  shows "\<exists>k' < length (ys @ xs).
      snd (fold (closer pos) xs (m, c)) = Some ((ys @ xs) ! k')
      \<and> (\<forall>j < length (ys @ xs).
            calculateDistance pos (coordinates ((ys @ xs) ! k'))
              \<le> calculateDistance pos (coordinates ((ys @ xs) ! j)))
      \<and> (\<forall>j < k'.
            calculateDistance pos (coordinates ((ys @ xs) ! k'))
              < calculateDistance pos (coordinates ((ys @ xs) ! j)))"
  using assms
proof (induction xs arbitrary: ys k c m)
  case Nil
  then show ?case by auto
next
  case (Cons x xs)
  let ?D = "\<lambda>i. calculateDistance pos (coordinates i)"
  show ?case
  proof (cases "?D x < m")
    case True
    have step: "fold (closer pos) (x # xs) (m, c) = fold (closer pos) xs (?D x, Some x)"
      using True by (simp add: closer_def Let_def)
    have "\<exists>k' < length ((ys @ [x]) @ xs).
      snd (fold (closer pos) xs (?D x, Some x)) = Some (((ys @ [x]) @ xs) ! k')
      \<and> (\<forall>j < length ((ys @ [x]) @ xs).
            ?D (((ys @ [x]) @ xs) ! k') \<le> ?D (((ys @ [x]) @ xs) ! j))
      \<and> (\<forall>j < k'. ?D (((ys @ [x]) @ xs) ! k') < ?D (((ys @ [x]) @ xs) ! j))"
    proof (rule Cons.IH [where k = "length ys"])
      show "length ys < length (ys @ [x])" by simp
      show "Some x = Some ((ys @ [x]) ! length ys)" by simp
      show "?D x = ?D ((ys @ [x]) ! length ys)" by simp
      show "\<forall>j < length (ys @ [x]). ?D x \<le> ?D ((ys @ [x]) ! j)"
        using True Cons.prems(4) by (auto simp add: nth_append less_Suc_eq)
      show "\<forall>j < length ys. ?D x < ?D ((ys @ [x]) ! j)"
        using True Cons.prems(4) by (auto simp add: nth_append)
    qed
    then show ?thesis
      unfolding step by simp
  next
    case False
    have step: "fold (closer pos) (x # xs) (m, c) = fold (closer pos) xs (m, c)"
      using False by (simp add: closer_def Let_def)
    have "\<exists>k' < length ((ys @ [x]) @ xs).
      snd (fold (closer pos) xs (m, c)) = Some (((ys @ [x]) @ xs) ! k')
      \<and> (\<forall>j < length ((ys @ [x]) @ xs).
            ?D (((ys @ [x]) @ xs) ! k') \<le> ?D (((ys @ [x]) @ xs) ! j))
      \<and> (\<forall>j < k'. ?D (((ys @ [x]) @ xs) ! k') < ?D (((ys @ [x]) @ xs) ! j))"
    proof (rule Cons.IH [where k = k])
      show "k < length (ys @ [x])" using Cons.prems(1) by simp
      show "c = Some ((ys @ [x]) ! k)" using Cons.prems(1,2) by (simp add: nth_append)
      show "m = ?D ((ys @ [x]) ! k)" using Cons.prems(1,3) by (simp add: nth_append)
      show "\<forall>j < length (ys @ [x]). m \<le> ?D ((ys @ [x]) ! j)"
        using False Cons.prems(4) by (auto simp add: nth_append less_Suc_eq)
      show "\<forall>j < k. m < ?D ((ys @ [x]) ! j)"
        using Cons.prems(1,5) by (auto simp add: nth_append)
    qed
    then show ?thesis
      unfolding step by simp
  qed
qed

lemma closest_first_min:
  assumes "xs \<noteq> []"
  shows "\<exists>k < length xs.
      snd (fold (closer pos) xs (MAX_VALUE, c0)) = Some (xs ! k)
      \<and> (\<forall>j < length xs.
            calculateDistance pos (coordinates (xs ! k))
              \<le> calculateDistance pos (coordinates (xs ! j)))
      \<and> (\<forall>j < k.
            calculateDistance pos (coordinates (xs ! k))
              < calculateDistance pos (coordinates (xs ! j)))"
proof -
  from assms obtain x rest where xs: "xs = x # rest"
    by (cases xs) auto
  have step: "fold (closer pos) xs (MAX_VALUE, c0)
      = fold (closer pos) rest (calculateDistance pos (coordinates x), Some x)"
    using calculateDistance_bound [of pos "coordinates x"] by (simp add: xs closer_def Let_def)
  have "\<exists>k < length ([x] @ rest).
      snd (fold (closer pos) rest (calculateDistance pos (coordinates x), Some x))
        = Some (([x] @ rest) ! k)
      \<and> (\<forall>j < length ([x] @ rest).
            calculateDistance pos (coordinates (([x] @ rest) ! k))
              \<le> calculateDistance pos (coordinates (([x] @ rest) ! j)))
      \<and> (\<forall>j < k.
            calculateDistance pos (coordinates (([x] @ rest) ! k))
              < calculateDistance pos (coordinates (([x] @ rest) ! j)))"
    by (rule fold_closer_first_min [where k = 0]) simp_all
  then show ?thesis
    unfolding step by (simp add: xs)
qed

text \<open>
  C5. For a route with a non-empty instruction list and any position, the instruction
  made current is the one at some index \<open>k\<close> whose anchor is at minimum distance from the
  position, and every instruction before \<open>k\<close> is strictly farther: among equidistant
  instructions the one with the lower index is selected.
\<close>

theorem closest_instruction_selected:
  assumes "instructions r \<noteq> []"
  shows "\<exists>k < length (instructions r).
      updateNavigationProgress (Some r) pos cur = Some (instructions r ! k)
      \<and> (\<forall>j < length (instructions r).
            calculateDistance pos (coordinates (instructions r ! k))
              \<le> calculateDistance pos (coordinates (instructions r ! j)))
      \<and> (\<forall>j < k.
            calculateDistance pos (coordinates (instructions r ! k))
              < calculateDistance pos (coordinates (instructions r ! j)))"
  using closest_first_min [OF assms] by (simp add: updateNavigationProgress_def)

text \<open>
  Witness for C5: two instructions with the same anchor are equidistant from any
  position; the first is selected.
\<close>

theorem closest_instruction_selected_witness:
  "instructions (routeWith [instructionNamed ''A'', instructionNamed ''B'']) \<noteq> []
   \<and> updateNavigationProgress (Some (routeWith [instructionNamed ''A'', instructionNamed ''B'']))
        \<lparr>latitude = 1, longitude = 2\<rparr> None
      = Some (instructionNamed ''A'')"
proof -
  let ?r = "routeWith [instructionNamed ''A'', instructionNamed ''B'']"
  let ?pos = "\<lparr>latitude = 1, longitude = 2\<rparr>"
  have ne: "instructions ?r \<noteq> []"
    by (simp add: routeWith_def)
  have instrs: "instructions ?r = [instructionNamed ''A'', instructionNamed ''B'']"
    by (simp add: routeWith_def)
  have same: "coordinates (instructionNamed ''B'') = coordinates (instructionNamed ''A'')"
    by (simp add: instructionNamed_def)
  from closest_instruction_selected [OF ne, of ?pos None]
  obtain k where k: "k < length (instructions ?r)"
    and sel: "updateNavigationProgress (Some ?r) ?pos None = Some (instructions ?r ! k)"
    and first: "\<forall>j < k. calculateDistance ?pos (coordinates (instructions ?r ! k))
        < calculateDistance ?pos (coordinates (instructions ?r ! j))"
    by blast
  have "k = 0"
  proof (rule ccontr)
    assume "k \<noteq> 0"
    with k have "k = 1" by (simp add: instrs)
    with first have "calculateDistance ?pos (coordinates (instructions ?r ! 1))
        < calculateDistance ?pos (coordinates (instructions ?r ! 0))"
      by simp
    then show False
      by (simp add: instrs same)
  qed
  with sel ne show ?thesis
    by (simp add: instrs)
qed

section \<open>Truncated polylines\<close>

lemma decodePolyline_nonempty: "encoded \<noteq> [] \<Longrightarrow> decodePolyline encoded \<noteq> []"
  unfolding decodePolyline_def
  by (subst decodeFrom.simps) (simp add: Let_def split: prod.split)

text \<open>
  C6, as stated, fails. The string \<^verbatim>\<open>_\<close> is a single continuation byte, yet it decodes to
  the one coordinate (0, 0). The documented example string cut inside the longitude group
  of its second point decodes to two points, the second with longitude -120.20248 where
  the full group gives -120.95.
\<close>

theorem truncated_polyline_decoded:
  "endsMidCodepoint ''_'' \<and> decodePolyline ''_'' = [\<lparr>latitude = 0, longitude = 0\<rparr>]
   \<and> endsMidCodepoint ''_p~iF~ps|U_ulLnn''
   \<and> decodePolyline ''_p~iF~ps|U_ulLnnqC'' =
        [\<lparr>latitude = 38.5, longitude = -120.2\<rparr>, \<lparr>latitude = 40.7, longitude = -120.95\<rparr>]
   \<and> decodePolyline ''_p~iF~ps|U_ulLnn'' =
        [\<lparr>latitude = 38.5, longitude = -120.2\<rparr>, \<lparr>latitude = 40.7, longitude = -120.20248\<rparr>]"
  by (simp add: endsMidCodepoint_def continues_def decodePolyline_def decodeFrom.simps delta_def)

lemma readGroup_all_continue:
  "list_all continues s \<Longrightarrow>
     readGroup (s @ t) shift result
       = readGroup t (shift + 5 * length s) (fst (readGroup s shift result))"
proof (induction s arbitrary: shift result)
  case Nil
  then show ?case by simp
next
  case (Cons c cs)
  then have "continues c" and cs: "list_all continues cs"
    by simp_all
  then have c: "0x20 \<le> int (of_char c) - 63"
    by (simp add: continues_def)
  show ?case
    using c Cons.IH [OF cs, of "shift + 5"] by (simp add: Let_def add.assoc)
qed

lemma readGroup_question: "readGroup (CHR ''?'' # t) shift result = (result, t)"
  by (simp add: Let_def)

lemma readGroup_all_continue_rest: "list_all continues s \<Longrightarrow> snd (readGroup s shift result) = []"
proof (induction s arbitrary: shift result)
  case Nil
  then show ?case by simp
next
  case (Cons c cs)
  then show ?case by (simp add: Let_def continues_def)
qed

lemma readGroup_terminated:
  "\<not> list_all continues s \<Longrightarrow>
     readGroup (s @ t) shift result
       = (fst (readGroup s shift result), snd (readGroup s shift result) @ t)"
proof (induction s arbitrary: shift result)
  case Nil
  then show ?case by simp
next
  case (Cons c cs)
  show ?case
  proof (cases "continues c")
    case True
    with Cons.prems have "\<not> list_all continues cs" by simp
    from Cons.IH [OF this, of "shift + 5"] True show ?thesis
      by (simp add: Let_def continues_def)
  next
    case False
    then show ?thesis by (simp add: Let_def continues_def)
  qed
qed

lemma readGroup_terminated_rest:
  "\<not> list_all continues s \<Longrightarrow> continues (last s) \<Longrightarrow>
     snd (readGroup s shift result) \<noteq> [] \<and> last (snd (readGroup s shift result)) = last s"
proof (induction s arbitrary: shift result)
  case Nil
  then show ?case by simp
next
  case (Cons c cs)
  show ?case
  proof (cases "continues c")
    case True
    with Cons.prems(1) have ncs: "\<not> list_all continues cs" by simp
    then have "cs \<noteq> []" by auto
    with Cons.prems(2) have "continues (last cs)" by simp
    from Cons.IH [OF ncs this, of "shift + 5"] True \<open>cs \<noteq> []\<close> show ?thesis
      by (simp add: Let_def continues_def)
  next
    case False
    with Cons.prems(2) have "cs \<noteq> []" by auto
    with False show ?thesis by (simp add: Let_def continues_def)
  qed
qed

lemma decodeFrom_Nil: "decodeFrom [] lat lng = []"
  by (subst decodeFrom.simps) simp

lemma truncated_as_padded:
  "s \<noteq> [] \<Longrightarrow> continues (last s) \<Longrightarrow>
     (\<forall>lat lng. decodeFrom s lat lng = decodeFrom (s @ ''?'') lat lng)
     \<or> (\<forall>lat lng. decodeFrom s lat lng = decodeFrom (s @ ''??'') lat lng)"
proof (induction "length s" arbitrary: s rule: less_induct)
  case less
  show ?case
  proof (cases "list_all continues s")
    case True
    have "decodeFrom s lat lng = decodeFrom (s @ ''??'') lat lng" for lat lng
    proof -
      have g: "readGroup s 0 0 = (fst (readGroup s 0 0), [])"
        using readGroup_all_continue_rest [OF True, of 0 0] by (simp add: prod_eq_iff)
      have p: "readGroup (s @ ''??'') 0 0 = (fst (readGroup s 0 0), ''?'')"
        using readGroup_all_continue [OF True, of "''??''" 0 0] by (simp add: Let_def)
      have l: "decodeFrom s lat lng
          = [\<lparr>latitude = real_of_int (lat + delta (fst (readGroup s 0 0))) / 100000,
               longitude = real_of_int (lng + delta 0) / 100000\<rparr>]"
        using less.prems(1) by (subst decodeFrom.simps, subst g) (simp add: Let_def decodeFrom_Nil)
      have r: "decodeFrom (s @ ''??'') lat lng
          = [\<lparr>latitude = real_of_int (lat + delta (fst (readGroup s 0 0))) / 100000,
               longitude = real_of_int (lng + delta 0) / 100000\<rparr>]"
        by (subst decodeFrom.simps, subst p) (simp add: Let_def decodeFrom_Nil)
      from l r show ?thesis by simp
    qed
    then show ?thesis by blast
  next
    case False
    define r1 where "r1 = fst (readGroup s 0 0)"
    define rest1 where "rest1 = snd (readGroup s 0 0)"
    have g1: "readGroup (s @ p) 0 0 = (r1, rest1 @ p)" for p
      using readGroup_terminated [OF False, of p 0 0] by (simp add: r1_def rest1_def)
    have g1': "readGroup s 0 0 = (r1, rest1)"
      by (simp add: r1_def rest1_def)
    have rest1: "rest1 \<noteq> []" "continues (last rest1)"
      using readGroup_terminated_rest [OF False less.prems(2), of 0 0] less.prems(2)
      by (simp_all add: rest1_def)
    have len1: "length rest1 < length s"
      using readGroup_shorter [OF less.prems(1), of 0 0] by (simp add: rest1_def)
    show ?thesis
    proof (cases "list_all continues rest1")
      case True
      have "decodeFrom s lat lng = decodeFrom (s @ ''?'') lat lng" for lat lng
      proof -
        have g: "readGroup rest1 0 0 = (fst (readGroup rest1 0 0), [])"
          using readGroup_all_continue_rest [OF True, of 0 0] by (simp add: prod_eq_iff)
        have p: "readGroup (rest1 @ ''?'') 0 0 = (fst (readGroup rest1 0 0), [])"
          using readGroup_all_continue [OF True, of "''?''" 0 0] by (simp add: Let_def)
        have l: "decodeFrom s lat lng
            = [\<lparr>latitude = real_of_int (lat + delta r1) / 100000,
                 longitude = real_of_int (lng + delta (fst (readGroup rest1 0 0))) / 100000\<rparr>]"
          using less.prems(1)
          by (subst decodeFrom.simps, subst g1', simp only: prod.case, subst g)
            (simp add: Let_def decodeFrom_Nil)
        have r: "decodeFrom (s @ ''?'') lat lng
            = [\<lparr>latitude = real_of_int (lat + delta r1) / 100000,
                 longitude = real_of_int (lng + delta (fst (readGroup rest1 0 0))) / 100000\<rparr>]"
          by (subst decodeFrom.simps, subst g1, simp only: prod.case, subst p)
            (simp add: Let_def decodeFrom_Nil)
        from l r show ?thesis by simp
      qed
      then show ?thesis by blast
    next
      case nc: False
      define r2 where "r2 = fst (readGroup rest1 0 0)"
      define rest2 where "rest2 = snd (readGroup rest1 0 0)"
      have g2: "readGroup (rest1 @ p) 0 0 = (r2, rest2 @ p)" for p
        using readGroup_terminated [OF nc, of p 0 0] by (simp add: r2_def rest2_def)
      have g2': "readGroup rest1 0 0 = (r2, rest2)"
        by (simp add: r2_def rest2_def)
      have rest2: "rest2 \<noteq> []" "continues (last rest2)"
        using readGroup_terminated_rest [OF nc rest1(2), of 0 0] rest1(2)
        by (simp_all add: rest2_def)
      have "length rest2 \<le> length rest1"
        using readGroup_length [of rest1 0 0] by (simp add: rest2_def)
      with len1 have len2: "length rest2 < length s" by simp
      have unfold_s: "decodeFrom s lat lng
          = \<lparr>latitude = real_of_int (lat + delta r1) / 100000,
              longitude = real_of_int (lng + delta r2) / 100000\<rparr>
            # decodeFrom rest2 (lat + delta r1) (lng + delta r2)" for lat lng
        using less.prems(1)
        by (subst decodeFrom.simps, subst g1', simp only: prod.case, subst g2')
          (simp add: Let_def)
      have unfold_p: "decodeFrom (s @ p) lat lng
          = \<lparr>latitude = real_of_int (lat + delta r1) / 100000,
              longitude = real_of_int (lng + delta r2) / 100000\<rparr>
            # decodeFrom (rest2 @ p) (lat + delta r1) (lng + delta r2)" for p lat lng
        using less.prems(1)
        by (subst decodeFrom.simps, subst g1, simp only: prod.case, subst g2)
          (simp add: Let_def)
      from less.hyps [OF len2 rest2] show ?thesis
        by (auto simp add: unfold_s unfold_p)
    qed
  qed
qed

text \<open>
  C6, amended. For every input that ends in the middle of a codepoint the decoder does
  not fail: the result is not empty, and it is exactly the result for the same string
  completed by one or by two characters \<^verbatim>\<open>?\<close> (zero chunks), that is, the missing bytes
  are read as zero and the partial group yields the last coordinate.
\<close>

theorem truncated_polyline_not_rejected:
  assumes "endsMidCodepoint encoded"
  shows "decodePolyline encoded \<noteq> []
    \<and> (decodePolyline encoded = decodePolyline (encoded @ ''?'')
       \<or> decodePolyline encoded = decodePolyline (encoded @ ''??''))"
proof -
  from assms have ne: "encoded \<noteq> []" and last: "continues (last encoded)"
    by (simp_all add: endsMidCodepoint_def)
  from truncated_as_padded [OF ne last] have
    "decodePolyline encoded = decodePolyline (encoded @ ''?'')
     \<or> decodePolyline encoded = decodePolyline (encoded @ ''??'')"
    unfolding decodePolyline_def by blast
  with decodePolyline_nonempty [OF ne] show ?thesis
    by simp
qed

text \<open>
Witness for C6: the documented example cut inside a group.
\<close>

theorem truncated_polyline_not_rejected_witness:
  "endsMidCodepoint ''_p~iF~ps|U_ulLnn''
   \<and> decodePolyline ''_p~iF~ps|U_ulLnn'' \<noteq> []
   \<and> decodePolyline ''_p~iF~ps|U_ulLnn'' = decodePolyline ''_p~iF~ps|U_ulLnn?''"
proof -
  have mid: "endsMidCodepoint ''_p~iF~ps|U_ulLnn''"
    by (simp add: endsMidCodepoint_def continues_def)
  have "decodePolyline ''_p~iF~ps|U_ulLnn'' = decodePolyline ''_p~iF~ps|U_ulLnn?''"
    by (simp add: decodePolyline_def decodeFrom.simps delta_def)
  with truncated_polyline_not_rejected [OF mid] mid show ?thesis
    by simp
qed

section \<open>Polyline round trip\<close>

lemma word_split5:
  "(word_of_nat n :: 32 word) = word_of_nat (n mod 32) OR push_bit 5 (word_of_nat (n div 32))"
proof -
  have "n mod 32 = take_bit 5 n" "n div 32 = drop_bit 5 n"
    by (simp_all add: take_bit_eq_mod drop_bit_eq_div)
  then show ?thesis
    by (simp only:) (rule bit_word_eqI, auto simp add: bit_simps)
qed

lemma low5: "n < 32 \<Longrightarrow> (word_of_nat n :: 32 word) AND 0x1f = word_of_nat n"
proof -
  assume "n < 32"
  then have "take_bit 5 n = n"
    by (simp add: take_bit_nat_eq_self_iff)
  have "(word_of_nat n :: 32 word) AND mask 5 = word_of_nat (take_bit 5 n)"
    by (simp add: take_bit_eq_mask [symmetric] of_nat_take_bit) 
  then show ?thesis
    using \<open>take_bit 5 n = n\<close> by (simp add: mask_eq_exp_minus_1)
qed

lemma low5_cont: "n < 32 \<Longrightarrow> (word_of_nat (n + 32) :: 32 word) AND 0x1f = word_of_nat n"
proof -
  assume "n < 32"
  then have "take_bit 5 (n + 32) = n"
    by (simp add: take_bit_eq_mod)
  have "(word_of_nat (n + 32) :: 32 word) AND mask 5 = word_of_nat (take_bit 5 (n + 32))"
    by (simp only: take_bit_eq_mask [symmetric] of_nat_take_bit)
  then show ?thesis
    using \<open>take_bit 5 (n + 32) = n\<close> by (simp add: mask_eq_exp_minus_1)
qed

lemma sint_NOT: "sint (NOT w) = - sint w - 1" for w :: "32 word"
proof -
  have "sint (NOT w) = signed_take_bit 32 (NOT (sint w))"
    using signed_not_eq [of w, where ?'a = int] by simp
  also have "\<dots> = NOT (sint w)"
    using sint_less [of w] sint_greater_eq [of w]
    by (intro signed_take_bit_int_eq_self) (simp_all add: not_int_def)
  finally show ?thesis
    by (simp add: not_int_def)
qed

lemma delta_sint:
  "delta w = (if odd (sint w) then - (sint w div 2) - 1 else sint w div 2)" for w :: "32 word"
proof -
  have "w AND 1 \<noteq> 0 \<longleftrightarrow> odd w"
    by (simp add: and_one_eq mod_2_eq_odd)
  moreover have "odd w \<longleftrightarrow> odd (sint w)"
    by (simp add: bit_0 [symmetric] bit_sint_iff del: bit_0)
  moreover have "sint (signed_drop_bit 1 w) = sint w div 2"
    by (simp add: sint_signed_drop_bit_eq drop_bit_eq_div)
  ultimately show ?thesis
    by (simp add: delta_def sint_NOT)
qed

lemma sint_of_nat_small: "n < 2 ^ 31 \<Longrightarrow> sint (word_of_nat n :: 32 word) = int n"
proof -
  assume "n < 2 ^ 31"
  then have "int n < 2 ^ 31" by (simp add: of_nat_less_numeral_power_cancel_iff)
  then have "signed_take_bit 31 (int n) = int n"
    by (intro signed_take_bit_int_eq_self) simp_all
  then show ?thesis
    by (simp add: signed_of_nat)
qed

lemma encodeUnsigned_nonempty: "encodeUnsigned n \<noteq> []"
  by (subst encodeUnsigned.simps) simp

lemma readGroup_step_cont:
  assumes "of_char c = 32 + m + (63::nat)" and "m < 32" and "shift < 32"
  shows "readGroup (c # cs) shift result
    = readGroup cs (shift + 5) (result OR push_bit shift (word_of_nat m))"
proof -
  have b: "int (of_char c) - 63 = int (m + 32)"
    using assms(1) by simp
  have "(word_of_int (int (m + 32)) :: 32 word) AND 0x1f = word_of_nat m"
    using low5_cont [OF assms(2)] by simp
  moreover have "(0x20 :: int) \<le> int (m + 32)" by simp
  moreover have "shift mod 32 = shift" using assms(3) by simp
  ultimately show ?thesis
    by (simp only: readGroup.simps Let_def b if_True)
qed

lemma readGroup_step_last:
  assumes "of_char c = m + (63::nat)" and "m < 32" and "shift < 32"
  shows "readGroup (c # cs) shift result = (result OR push_bit shift (word_of_nat m), cs)"
proof -
  have b: "int (of_char c) - 63 = int m"
    using assms(1) by simp
  have "(word_of_int (int m) :: 32 word) AND 0x1f = word_of_nat m"
    using low5 [OF assms(2)] by simp
  moreover have "\<not> (0x20 :: int) \<le> int m" using assms(2) by simp
  moreover have "shift mod 32 = shift" using assms(3) by simp
  ultimately show ?thesis
    by (simp only: readGroup.simps Let_def b if_False)
qed

lemma readGroup_encodeUnsigned:
  "n < 2 ^ k \<Longrightarrow> shift + k \<le> 32 \<Longrightarrow> shift < 32 \<Longrightarrow>
     readGroup (encodeUnsigned n @ rest) shift result
       = (result OR push_bit shift (word_of_nat n), rest)"
proof (induction n arbitrary: k shift result rule: encodeUnsigned.induct)
  case (1 n)
  show ?case
  proof (cases "n \<ge> 32")
    case True
    have k5: "5 < k"
    proof (rule ccontr)
      assume "\<not> 5 < k"
      then have "(2::nat) ^ k \<le> 2 ^ 5" by (intro power_increasing) simp_all
      with "1.prems"(1) True show False by simp
    qed
    have small: "n div 32 < 2 ^ (k - 5)"
    proof -
      have "(2::nat) ^ k = 2 ^ (5 + (k - 5))"
        using k5 by simp
      then have "(2::nat) ^ k = 2 ^ 5 * 2 ^ (k - 5)"
        by (simp only: power_add)
      with "1.prems"(1) have "n < 2 ^ 5 * 2 ^ (k - 5)"
        by simp
      then show ?thesis
        by (simp add: less_mult_imp_div_less mult.commute)
    qed
    define c where "c = char_of (32 + n mod 32 + 63 :: nat)"
    have enc: "encodeUnsigned n @ rest = c # (encodeUnsigned (n div 32) @ rest)"
      using True unfolding c_def by (subst encodeUnsigned.simps) simp
    have code: "of_char c = 32 + n mod 32 + (63 :: nat)"
      unfolding c_def by (simp add: of_char_of)
    have "readGroup (c # (encodeUnsigned (n div 32) @ rest)) shift result
        = readGroup (encodeUnsigned (n div 32) @ rest) (shift + 5)
            (result OR push_bit shift (word_of_nat (n mod 32)))"
      using code "1.prems"(3) by (intro readGroup_step_cont) simp_all
    also have "\<dots> = ((result OR push_bit shift (word_of_nat (n mod 32)))
             OR push_bit (shift + 5) (word_of_nat (n div 32)), rest)"
      by (rule "1.IH" [OF True small]) (use "1.prems" k5 in simp_all)
    also have "(result OR push_bit shift (word_of_nat (n mod 32)))
          OR push_bit (shift + 5) (word_of_nat (n div 32))
        = result OR push_bit shift (word_of_nat n)"
      by (subst word_split5 [of n]) (simp add: push_bit_or push_bit_push_bit ac_simps)
    finally show ?thesis
      by (simp only: enc)
  next
    case False
    then have small: "n < 32" by simp
    define c where "c = char_of (n + 63 :: nat)"
    have enc: "encodeUnsigned n @ rest = c # rest"
      using False unfolding c_def by (subst encodeUnsigned.simps) simp
    have code: "of_char c = n + (63 :: nat)"
      unfolding c_def using small by (simp add: of_char_of)
    show ?thesis
      unfolding enc using code small "1.prems"(3) by (rule readGroup_step_last)
  qed
qed

lemma readGroup_encodeSigned:
  assumes "- (2 ^ 30) \<le> v" and "v < 2 ^ 30"
  shows "\<exists>w. readGroup (encodeSigned v @ rest) 0 0 = (w, rest) \<and> delta w = v"
proof -
  define n where "n = nat (if v < 0 then - (2 * v) - 1 else 2 * v)"
  have n_int: "int n = (if v < 0 then - (2 * v) - 1 else 2 * v)"
    unfolding n_def by simp
  have "int n < 2 ^ 31"
    using assms by (simp add: n_int)
  then have n31: "n < 2 ^ 31"
    by (simp add: of_nat_less_numeral_power_cancel_iff [symmetric] del: of_nat_less_numeral_power_cancel_iff)
  have "readGroup (encodeUnsigned n @ rest) 0 0 = (0 OR push_bit 0 (word_of_nat n), rest)"
    using n31 by (rule readGroup_encodeUnsigned) simp_all
  then have rd: "readGroup (encodeSigned v @ rest) 0 0 = (word_of_nat n, rest)"
    by (simp add: encodeSigned_def n_def)
  have "(- (2 * v) - 1) div 2 = - v - 1"
    by presburger
  then have "delta (word_of_nat n :: 32 word) = v"
    by (simp add: delta_sint sint_of_nat_small [OF n31] n_int)
  with rd show ?thesis by blast
qed

lemma encodeSigned_nonempty: "encodeSigned v \<noteq> []"
  by (simp add: encodeSigned_def encodeUnsigned_nonempty)

lemma e5_bound:
  fixes x :: real and b :: int
  assumes "\<bar>x\<bar> \<le> real_of_int b"
  shows "\<bar>e5 x\<bar> \<le> b * 100000"
proof -
  from assms have "x * 100000 \<le> of_int (b * 100000)" "of_int (- (b * 100000)) \<le> x * 100000"
    by simp_all
  then have "round (x * 100000) \<le> round (of_int (b * 100000) :: real)"
    "round (of_int (- (b * 100000)) :: real) \<le> round (x * 100000)"
    by (simp_all only: round_mono)
  then show ?thesis
    by (simp add: e5_def del: of_int_mult of_int_minus)
qed

lemma decodeFrom_encodeFrom:
  assumes "list_all validCoord ps" and "\<bar>plat\<bar> \<le> 9000000" and "\<bar>plng\<bar> \<le> 18000000"
  shows "decodeFrom (encodeFrom ps plat plng) plat plng = map quantise ps"
  using assms
proof (induction ps arbitrary: plat plng)
  case Nil
  show ?case by (subst decodeFrom.simps) simp
next
  case (Cons p ps)
  define lat where "lat = e5 (latitude p)"
  define lng where "lng = e5 (longitude p)"
  define tail where "tail = encodeFrom ps lat lng"
  from Cons.prems(1) have valid: "validCoord p" and rest: "list_all validCoord ps"
    by simp_all
  have lat_b: "\<bar>lat\<bar> \<le> 9000000"
    using valid e5_bound [of "latitude p" 90] by (simp add: validCoord_def lat_def)
  have lng_b: "\<bar>lng\<bar> \<le> 18000000"
    using valid e5_bound [of "longitude p" 180] by (simp add: validCoord_def lng_def)
  have enc: "encodeFrom (p # ps) plat plng
      = encodeSigned (lat - plat) @ encodeSigned (lng - plng) @ tail"
    by (simp add: Let_def lat_def lng_def tail_def)
  have r1: "- (2 ^ 30) \<le> lat - plat" "lat - plat < 2 ^ 30"
    using lat_b Cons.prems(2) by (simp; linarith)+
  have r2: "- (2 ^ 30) \<le> lng - plng" "lng - plng < 2 ^ 30"
    using lng_b Cons.prems(3) by (simp; linarith)+
  obtain w1 where w1: "readGroup (encodeSigned (lat - plat) @ encodeSigned (lng - plng) @ tail) 0 0
      = (w1, encodeSigned (lng - plng) @ tail)" and d1: "delta w1 = lat - plat"
    using readGroup_encodeSigned [OF r1, of "encodeSigned (lng - plng) @ tail"] by blast
  obtain w2 where w2: "readGroup (encodeSigned (lng - plng) @ tail) 0 0 = (w2, tail)"
      and d2: "delta w2 = lng - plng"
    using readGroup_encodeSigned [OF r2, of tail] by blast
  have "decodeFrom (encodeFrom (p # ps) plat plng) plat plng
      = \<lparr>latitude = real_of_int lat / 100000, longitude = real_of_int lng / 100000\<rparr>
          # decodeFrom tail lat lng"
    unfolding enc
    by (subst decodeFrom.simps) (simp add: encodeSigned_nonempty w1 w2 d1 d2 Let_def)
  also have "decodeFrom tail lat lng = map quantise ps"
    unfolding tail_def using rest lat_b lng_b by (rule Cons.IH)
  finally show ?case
    by (simp add: quantise_def lat_def lng_def)
qed

lemma quantise_close:
  "\<bar>latitude (quantise p) - latitude p\<bar> \<le> 1 / 100000
   \<and> \<bar>longitude (quantise p) - longitude p\<bar> \<le> 1 / 100000"
proof -
  have close: "\<bar>real_of_int (round (x * 100000)) / 100000 - x\<bar> \<le> 1 / 100000" for x :: real
  proof -
    have "\<bar>real_of_int (round (x * 100000)) - x * 100000\<bar> \<le> 1 / 2"
      by (rule of_int_round_abs_le)
    then have "real_of_int (round (x * 100000)) - x * 100000 \<le> 1 / 2"
      "x * 100000 - real_of_int (round (x * 100000)) \<le> 1 / 2"
      by linarith+
    then show ?thesis
      by (intro abs_leI) linarith+
  qed
  show ?thesis
    using close [of "latitude p"] close [of "longitude p"]
    by (simp add: quantise_def e5_def)
qed

lemma google_encoding: "encodePolyline googleExample = ''_p~iF~ps|U_ulLnnqC_mqNvxq`@''"
  by (simp add: encodePolyline_def googleExample_def e5_def encodeSigned_def
      encodeUnsigned.simps Let_def char_of_def bit_0)

text \<open>
  C7. For every list of coordinates in degrees (latitude within \<plusminus>90, longitude within
  \<plusminus>180), of any length, decoding the string written by the encoder gives a list of the
  same length whose coordinates differ from the originals by at most \<^verbatim>\<open>1e-5\<close>.
\<close>

theorem polyline_round_trip:
  assumes "list_all validCoord ps"
  shows "length (decodePolyline (encodePolyline ps)) = length ps
    \<and> (\<forall>i < length ps.
          \<bar>latitude (decodePolyline (encodePolyline ps) ! i) - latitude (ps ! i)\<bar> \<le> 1 / 100000
          \<and> \<bar>longitude (decodePolyline (encodePolyline ps) ! i) - longitude (ps ! i)\<bar>
              \<le> 1 / 100000)"
proof -
  have eq: "decodePolyline (encodePolyline ps) = map quantise ps"
    unfolding decodePolyline_def encodePolyline_def
    using assms by (rule decodeFrom_encodeFrom) simp_all
  show ?thesis
  proof (intro conjI allI impI)
    show "length (decodePolyline (encodePolyline ps)) = length ps"
      by (simp add: eq)
  next
    fix i assume "i < length ps"
    then have "decodePolyline (encodePolyline ps) ! i = quantise (ps ! i)"
      by (simp add: eq)
    then show "\<bar>latitude (decodePolyline (encodePolyline ps) ! i) - latitude (ps ! i)\<bar>
        \<le> 1 / 100000"
      and "\<bar>longitude (decodePolyline (encodePolyline ps) ! i) - longitude (ps ! i)\<bar>
        \<le> 1 / 100000"
      using quantise_close [of "ps ! i"] by simp_all
  qed
qed

text \<open>
Witness for C7: the three points of the documented example.
\<close>

theorem polyline_round_trip_witness:
  "list_all validCoord googleExample
   \<and> length (decodePolyline (encodePolyline googleExample)) = length googleExample
   \<and> \<bar>latitude (decodePolyline (encodePolyline googleExample) ! 2) - latitude (googleExample ! 2)\<bar>
       \<le> 1 / 100000"
proof -
  have v: "list_all validCoord googleExample"
    by (simp add: googleExample_def validCoord_def)
  have i: "2 < length googleExample"
    by (simp add: googleExample_def)
  note rt = polyline_round_trip [OF v]
  from rt have len: "length (decodePolyline (encodePolyline googleExample)) = length googleExample"
    by (rule conjunct1)
  from rt i have "\<bar>latitude (decodePolyline (encodePolyline googleExample) ! 2)
      - latitude (googleExample ! 2)\<bar> \<le> 1 / 100000"
    by blast
  with v len show ?thesis
    by blast
qed

section \<open>Trip timestamps\<close>

lemma handler_timestamps:
  "code_timestamps (tripState s) \<Longrightarrow> code_timestamps (tripState (handler e s))"
  by (cases e) (auto simp add: handler_defs Let_def code_timestamps_def idleTrip_def split: option.split)

lemma run_timestamps:
  "code_timestamps (tripState s) \<Longrightarrow> code_timestamps (tripState (run evs s))"
  unfolding run_def
  by (induction evs arbitrary: s) (simp_all add: dispatch_fields handler_timestamps)

lemma mount_timestamps: "code_timestamps (tripState (mount h))"
  by (simp add: mount_fields code_timestamps_def idleTrip_def)

text \<open>
  C8, as stated, fails: a trip that is started and then completed through the rendered
  controls has status completed and no start time.
\<close>

theorem completion_clears_startTime:
  "status (tripState (presses [StartTrip 1, DropOff, DropoffConfirm] (mount False))) = completed
   \<and> startTime (tripState (presses [StartTrip 1, DropOff, DropoffConfirm] (mount False))) = None
   \<and> \<not> spec_timestamps True
         (tripState (presses [StartTrip 1, DropOff, DropoffConfirm] (mount False)))"
  by (simp add: presses_def press_def dispatch_fields handler_defs mount_fields idleTrip_def
      spec_timestamps_def)

text \<open>
  C8, amended. \<open>restStartTime\<close> is set exactly when the status is resting, and \<open>startTime\<close>
  is set exactly when the status is active or resting (completion clears it). The
  invariant holds on the mounted screen, every handler preserves it, and so it holds
  after every sequence of events.
\<close>

theorem timestamps_invariant:
  "code_timestamps (tripState (mount h))
   \<and> (code_timestamps (tripState s) \<longrightarrow> code_timestamps (tripState (handler e s)))
   \<and> code_timestamps (tripState (run evs (mount h)))"
  by (simp add: mount_timestamps handler_timestamps run_timestamps)

text \<open>
Witness for C8: resting an active trip sets the rest start time.
\<close>

theorem timestamps_invariant_witness:
  "code_timestamps (tripState (mount False))
   \<and> code_timestamps (tripState (handler (ToggleRest 7) (startTrip 3 (mount False))))
   \<and> restStartTime (tripState (handler (ToggleRest 7) (startTrip 3 (mount False)))) = Some 7"
proof -
  have pre: "code_timestamps (tripState (startTrip 3 (mount False)))"
    by (simp add: code_timestamps_def startTrip_def)
  have "restStartTime (tripState (handler (ToggleRest 7) (startTrip 3 (mount False)))) = Some 7"
    by (simp add: toggleRest_def startTrip_def)
  with pre timestamps_invariant [of False "startTrip 3 (mount False)" "ToggleRest 7" "[]"]
  show ?thesis by simp
qed

section \<open>Cumulative additions\<close>

lemma add_undo_example:
  "cumulativeTotal (run [PriceAdd 500, PriceAdd 1000, UndoLast] (mount h)) = 500
   \<and> recentAdditions (run [PriceAdd 500, PriceAdd 1000, UndoLast] (mount h)) = [500]
   \<and> cumulativeTotal (run [PriceAdd 500, PriceAdd 1000, UndoLast, ClearCumulative] (mount h)) = 0
   \<and> recentAdditions (run [PriceAdd 500, PriceAdd 1000, UndoLast, ClearCumulative] (mount h)) = []"
  by (simp add: run_def dispatch_fields handler_defs slice_last4_def mount_fields)

lemma price_option_nonneg: "v \<in> set PRICE_OPTIONS \<Longrightarrow> 0 \<le> v"
  unfolding PRICE_OPTIONS_def by (elim disjE | simp)+

lemma sum_list_drop_le:
  fixes xs :: "real list"
  assumes "list_all (\<lambda>x. 0 \<le> x) xs"
  shows "sum_list (drop k xs) \<le> sum_list xs"
proof -
  have "sum_list (take k xs @ drop k xs) = sum_list (take k xs) + sum_list (drop k xs)"
    by (rule sum_list_append)
  then have "sum_list xs = sum_list (take k xs) + sum_list (drop k xs)"
    by simp
  moreover have "0 \<le> sum_list (take k xs)"
    using assms by (auto intro!: sum_list_nonneg dest: in_set_takeD simp add: list_all_iff)
  ultimately show ?thesis
    by simp
qed

lemma sum_list_butlast_last:
  fixes xs :: "real list"
  shows "xs \<noteq> [] \<Longrightarrow> sum_list (butlast xs) + last xs = sum_list xs"
  by (induction xs) auto

lemma history_inv_total_nonneg: "history_inv s \<Longrightarrow> 0 \<le> cumulativeTotal s"
proof -
  assume "history_inv s"
  then have "sum_list (recentAdditions s) \<le> cumulativeTotal s"
    and "0 \<le> sum_list (recentAdditions s)"
    by (auto simp add: history_inv_def list_all_iff intro!: sum_list_nonneg)
  then show ?thesis
    by simp
qed

lemma handler_history_inv:
  assumes "history_inv s" and "enabled s e"
  shows "history_inv (handler e s)"
proof (cases e)
  case (PriceAdd v)
  with assms(2) have v: "0 \<le> v"
    by (simp add: price_option_nonneg)
  from assms(1) have all: "list_all (\<lambda>x. 0 \<le> x) (recentAdditions s)"
    and le: "sum_list (recentAdditions s) \<le> cumulativeTotal s"
    by (simp_all add: history_inv_def)
  from all have "sum_list (slice_last4 (recentAdditions s)) \<le> sum_list (recentAdditions s)"
    unfolding slice_last4_def by (rule sum_list_drop_le)
  moreover from all have "list_all (\<lambda>x. 0 \<le> x) (slice_last4 (recentAdditions s))"
    unfolding slice_last4_def by (auto simp add: list_all_iff dest: in_set_dropD)
  ultimately show ?thesis
    using PriceAdd v le by (simp add: handlePriceAdd_def history_inv_def)
next
  case UndoLast
  with assms(2) have ne: "recentAdditions s \<noteq> []"
    by simp
  from assms(1) have all: "list_all (\<lambda>x. 0 \<le> x) (recentAdditions s)"
    and le: "sum_list (recentAdditions s) \<le> cumulativeTotal s"
    by (simp_all add: history_inv_def)
  from all have "list_all (\<lambda>x. 0 \<le> x) (butlast (recentAdditions s))"
    by (auto simp add: list_all_iff dest: in_set_butlastD)
  moreover from ne le
  have "sum_list (butlast (recentAdditions s)) \<le> cumulativeTotal s - last (recentAdditions s)"
    using sum_list_butlast_last [of "recentAdditions s"] by simp
  ultimately show ?thesis
    using UndoLast ne by (simp add: handleUndoLast_def history_inv_def Let_def)
qed (use assms(1) in \<open>simp_all add: handler_defs history_inv_def Let_def split: option.split\<close>)

lemma press_history_inv: "history_inv s \<Longrightarrow> history_inv (press e s)"
  using handler_history_inv [of s e]
  by (simp add: press_def history_inv_def dispatch_fields)

lemma presses_history_inv: "history_inv s \<Longrightarrow> history_inv (presses evs s)"
  unfolding presses_def by (induction evs arbitrary: s) (simp_all add: press_history_inv)

lemma mount_history_inv: "history_inv (mount h)"
  by (simp add: history_inv_def mount_fields)

lemma undo_removes_last:
  assumes "history_inv s" and "recentAdditions s \<noteq> []"
  shows "cumulativeTotal (press UndoLast s) = cumulativeTotal s - last (recentAdditions s)"
    and "recentAdditions (press UndoLast s) = butlast (recentAdditions s)"
proof -
  from assms(1) have all: "list_all (\<lambda>x. 0 \<le> x) (recentAdditions s)"
    and le: "sum_list (recentAdditions s) \<le> cumulativeTotal s"
    by (simp_all add: history_inv_def)
  from all have "0 \<le> sum_list (butlast (recentAdditions s))"
    by (auto simp add: list_all_iff intro!: sum_list_nonneg dest: in_set_butlastD)
  with assms(2) le have "0 \<le> cumulativeTotal s - last (recentAdditions s)"
    using sum_list_butlast_last [of "recentAdditions s"] by simp
  with assms(2)
  show "cumulativeTotal (press UndoLast s) = cumulativeTotal s - last (recentAdditions s)"
    by (simp add: press_def dispatch_fields handleUndoLast_def Let_def)
  from assms(2) show "recentAdditions (press UndoLast s) = butlast (recentAdditions s)"
    by (simp add: press_def dispatch_fields handleUndoLast_def Let_def)
qed

lemma press_PriceAdd:
  assumes "v \<in> set PRICE_OPTIONS"
  shows "cumulativeTotal (press (PriceAdd v) s) = cumulativeTotal s + v"
    and "recentAdditions (press (PriceAdd v) s) = slice_last4 (recentAdditions s) @ [v]"
  using assms by (simp_all add: press_def dispatch_fields handlePriceAdd_def)

text \<open>
  C9. An addition increases the cumulative total by its value, whatever the state, and
  becomes the last entry of the history, in front of which the last four earlier entries
  are kept. The undo, in every state reached from the mounted screen through the rendered
  controls whose history is not empty, lowers the total by exactly the last entry of the
  history and removes that entry; so undoing right after an addition restores the total
  (for the handlers: from any state whose total is not negative) and leaves the earlier
  entries that the addition kept, which are all of them when there were at most four.
  The confirmed clear sets the total to 0 and empties the history, whatever the state.
  From the mounted screen, adding 500, adding 1000 and undoing gives total 500 with
  history [500]; clearing then gives 0 and the empty history.
\<close>

theorem cumulative_add_undo_clear:
  "cumulativeTotal (handlePriceAdd v s) = cumulativeTotal s + v
   \<and> recentAdditions (handlePriceAdd v s) = slice_last4 (recentAdditions s) @ [v]
   \<and> last (recentAdditions (handlePriceAdd v s)) = v
   \<and> (length (recentAdditions s) \<le> 4 \<longrightarrow>
        recentAdditions (handlePriceAdd v s) = recentAdditions s @ [v])
   \<and> (recentAdditions (presses evs (mount h)) \<noteq> [] \<longrightarrow>
        cumulativeTotal (press UndoLast (presses evs (mount h)))
          = cumulativeTotal (presses evs (mount h)) - last (recentAdditions (presses evs (mount h)))
        \<and> recentAdditions (press UndoLast (presses evs (mount h)))
          = butlast (recentAdditions (presses evs (mount h))))
   \<and> (v \<in> set PRICE_OPTIONS \<longrightarrow>
        cumulativeTotal (press UndoLast (press (PriceAdd v) (presses evs (mount h))))
          = cumulativeTotal (presses evs (mount h))
        \<and> recentAdditions (press UndoLast (press (PriceAdd v) (presses evs (mount h))))
          = slice_last4 (recentAdditions (presses evs (mount h))))
   \<and> (0 \<le> cumulativeTotal s \<longrightarrow>
        cumulativeTotal (handleUndoLast (handlePriceAdd v s)) = cumulativeTotal s)
   \<and> recentAdditions (handleUndoLast (handlePriceAdd v s)) = slice_last4 (recentAdditions s)
   \<and> (length (recentAdditions s) \<le> 4 \<longrightarrow>
        recentAdditions (handleUndoLast (handlePriceAdd v s)) = recentAdditions s)
   \<and> cumulativeTotal (handleClearCumulative True s) = 0
   \<and> recentAdditions (handleClearCumulative True s) = []
   \<and> cumulativeTotal (run [PriceAdd 500, PriceAdd 1000, UndoLast] (mount h)) = 500
   \<and> recentAdditions (run [PriceAdd 500, PriceAdd 1000, UndoLast] (mount h)) = [500]
   \<and> cumulativeTotal (run [PriceAdd 500, PriceAdd 1000, UndoLast, ClearCumulative] (mount h)) = 0
   \<and> recentAdditions (run [PriceAdd 500, PriceAdd 1000, UndoLast, ClearCumulative] (mount h)) = []"
proof -
  let ?S = "presses evs (mount h)"
  have add: "cumulativeTotal (handlePriceAdd v s) = cumulativeTotal s + v
    \<and> recentAdditions (handlePriceAdd v s) = slice_last4 (recentAdditions s) @ [v]
    \<and> last (recentAdditions (handlePriceAdd v s)) = v
    \<and> (length (recentAdditions s) \<le> 4 \<longrightarrow>
         recentAdditions (handlePriceAdd v s) = recentAdditions s @ [v])"
    by (simp add: handlePriceAdd_def slice_last4_def)
  have inv: "history_inv ?S"
    by (rule presses_history_inv) (rule mount_history_inv)
  then have undo: "recentAdditions ?S \<noteq> [] \<longrightarrow>
      cumulativeTotal (press UndoLast ?S) = cumulativeTotal ?S - last (recentAdditions ?S)
      \<and> recentAdditions (press UndoLast ?S) = butlast (recentAdditions ?S)"
    by (simp add: undo_removes_last)
  have add_undo: "v \<in> set PRICE_OPTIONS \<longrightarrow>
      cumulativeTotal (press UndoLast (press (PriceAdd v) ?S)) = cumulativeTotal ?S
      \<and> recentAdditions (press UndoLast (press (PriceAdd v) ?S)) = slice_last4 (recentAdditions ?S)"
  proof
    assume v: "v \<in> set PRICE_OPTIONS"
    from inv have "history_inv (press (PriceAdd v) ?S)"
      by (rule press_history_inv)
    moreover from v have "recentAdditions (press (PriceAdd v) ?S) \<noteq> []"
      by (simp add: press_PriceAdd)
    ultimately show "cumulativeTotal (press UndoLast (press (PriceAdd v) ?S)) = cumulativeTotal ?S
      \<and> recentAdditions (press UndoLast (press (PriceAdd v) ?S)) = slice_last4 (recentAdditions ?S)"
      using v by (simp add: undo_removes_last press_PriceAdd)
  qed
  have handlers: "(0 \<le> cumulativeTotal s \<longrightarrow>
        cumulativeTotal (handleUndoLast (handlePriceAdd v s)) = cumulativeTotal s)
    \<and> recentAdditions (handleUndoLast (handlePriceAdd v s)) = slice_last4 (recentAdditions s)
    \<and> (length (recentAdditions s) \<le> 4 \<longrightarrow>
        recentAdditions (handleUndoLast (handlePriceAdd v s)) = recentAdditions s)"
    by (simp add: handlePriceAdd_def handleUndoLast_def slice_last4_def Let_def)
  have clear: "cumulativeTotal (handleClearCumulative True s) = 0
    \<and> recentAdditions (handleClearCumulative True s) = []"
    by (simp add: handleClearCumulative_def)
  from add undo add_undo handlers clear add_undo_example [of h] show ?thesis
    by blast
qed

text \<open>
  Witness for C9: after the six additions 500, 500, 1000, 2000, 5000, 1000 the history
  holds five entries and the total is 10000; the undo removes the last entry, 1000, and
  an addition of 1000 followed by the undo restores the total. For the handlers: undoing
  the addition of 1000 made after an addition of 500.
\<close>

theorem cumulative_add_undo_clear_witness:
  "recentAdditions (presses (map PriceAdd [500, 500, 1000, 2000, 5000, 1000]) (mount False))
     = [500, 1000, 2000, 5000, 1000]
   \<and> cumulativeTotal (presses (map PriceAdd [500, 500, 1000, 2000, 5000, 1000]) (mount False)) = 10000
   \<and> cumulativeTotal (press UndoLast
        (presses (map PriceAdd [500, 500, 1000, 2000, 5000, 1000]) (mount False))) = 9000
   \<and> recentAdditions (press UndoLast
        (presses (map PriceAdd [500, 500, 1000, 2000, 5000, 1000]) (mount False)))
     = [500, 1000, 2000, 5000]
   \<and> (1000::real) \<in> set PRICE_OPTIONS
   \<and> cumulativeTotal (press UndoLast (press (PriceAdd 1000)
        (presses (map PriceAdd [500, 500, 1000, 2000, 5000, 1000]) (mount False)))) = 10000
   \<and> 0 \<le> cumulativeTotal (handlePriceAdd 500 (mount False))
   \<and> length (recentAdditions (handlePriceAdd 500 (mount False))) \<le> 4
   \<and> cumulativeTotal (handleUndoLast (handlePriceAdd 1000 (handlePriceAdd 500 (mount False)))) = 500
   \<and> recentAdditions (handleUndoLast (handlePriceAdd 1000 (handlePriceAdd 500 (mount False)))) = [500]"
proof -
  let ?S = "presses (map PriceAdd [500, 500, 1000, 2000, 5000, 1000]) (mount False)"
  have opts: "(500::real) \<in> set PRICE_OPTIONS" "(1000::real) \<in> set PRICE_OPTIONS"
    "(2000::real) \<in> set PRICE_OPTIONS" "(5000::real) \<in> set PRICE_OPTIONS"
    by (simp_all add: PRICE_OPTIONS_def)
  have hist: "recentAdditions ?S = [500, 1000, 2000, 5000, 1000]"
    by (simp add: presses_def press_PriceAdd opts slice_last4_def mount_fields)
  have total: "cumulativeTotal ?S = 10000"
    by (simp add: presses_def press_PriceAdd opts mount_fields)
  have c: "cumulativeTotal (handlePriceAdd 500 (mount False)) = 500"
    by (simp add: handlePriceAdd_def mount_fields)
  have d: "recentAdditions (handlePriceAdd 500 (mount False)) = [500]"
    by (simp add: handlePriceAdd_def mount_fields slice_last4_def)
  from cumulative_add_undo_clear
      [of 1000 "handlePriceAdd 500 (mount False)" "map PriceAdd [500, 500, 1000, 2000, 5000, 1000]"
        False]
    hist total opts c d
  show ?thesis by (simp add: slice_last4_def)
qed

section \<open>Bounded undo history\<close>

lemma slice_last4_snoc:
  "slice_last4 (drop (length vs - 5) vs) @ [v] = drop (length (vs @ [v]) - 5) (vs @ [v])"
proof -
  have "length vs - (length vs - 5 + 4) + (length vs - 5) = length vs - 4"
    by arith
  then show ?thesis
    by (simp add: slice_last4_def)
qed

lemma adds_history:
  "recentAdditions (run (map PriceAdd vs) (mount h)) = drop (length vs - 5) vs"
proof (induction vs rule: rev_induct)
  case Nil
  then show ?case by (simp add: run_def mount_fields)
next
  case (snoc v vs)
  have "recentAdditions (run (map PriceAdd (vs @ [v])) (mount h))
      = slice_last4 (recentAdditions (run (map PriceAdd vs) (mount h))) @ [v]"
    by (simp add: run_snoc dispatch_fields handlePriceAdd_def)
  also have "\<dots> = slice_last4 (drop (length vs - 5) vs) @ [v]"
    by (simp add: snoc.IH)
  finally show ?case
    by (simp only: slice_last4_snoc)
qed

lemma handler_cumulative_inv:
  assumes "cumulative_inv s" and "enabled s e"
  shows "cumulative_inv (handler e s)"
proof (cases e)
  case (PriceAdd v)
  with assms(2) have "0 \<le> v"
    by (simp add: price_option_nonneg)
  with assms(1) PriceAdd show ?thesis
    by (simp add: handlePriceAdd_def cumulative_inv_def slice_last4_def)
next
  case UndoLast
  with assms(1) show ?thesis
    by (auto simp add: handleUndoLast_def cumulative_inv_def Let_def)
qed (use assms(1) in \<open>simp_all add: handler_defs cumulative_inv_def Let_def split: option.split\<close>)

lemma press_cumulative_inv: "cumulative_inv s \<Longrightarrow> cumulative_inv (press e s)"
  using handler_cumulative_inv [of s e]
  by (simp add: press_def cumulative_inv_def dispatch_fields)

lemma presses_cumulative_inv: "cumulative_inv s \<Longrightarrow> cumulative_inv (presses evs s)"
  unfolding presses_def by (induction evs arbitrary: s) (simp_all add: press_cumulative_inv)

lemma mount_cumulative_inv: "cumulative_inv (mount h)"
  by (simp add: cumulative_inv_def mount_fields)

lemma six_adds_six_undos:
  "cumulativeTotal (run [PriceAdd 500, PriceAdd 500, PriceAdd 500, PriceAdd 500, PriceAdd 500,
      PriceAdd 500, UndoLast, UndoLast, UndoLast, UndoLast, UndoLast, UndoLast] (mount h)) = 500"
  by (simp add: run_def dispatch_PriceAdd dispatch_UndoLast slice_last4_def mount_fields)

text \<open>
  C10. After any list of additions the history holds exactly the last five of them; an
  addition never leaves more than five entries; on every run through the rendered
  controls the history has at most five entries and the cumulative total is not
  negative; an undo that removes an entry, or that starts from a non-negative total,
  leaves a non-negative total. Six additions of 500 followed by six undos leave 500: the
  first addition can no longer be undone.
\<close>

theorem undo_history_bounded:
  "recentAdditions (run (map PriceAdd vs) (mount h)) = drop (length vs - 5) vs
   \<and> length (recentAdditions (handlePriceAdd v s)) \<le> 5
   \<and> length (recentAdditions (presses evs (mount h))) \<le> 5
   \<and> 0 \<le> cumulativeTotal (presses evs (mount h))
   \<and> (recentAdditions s \<noteq> [] \<longrightarrow> 0 \<le> cumulativeTotal (handleUndoLast s))
   \<and> (0 \<le> cumulativeTotal s \<longrightarrow> 0 \<le> cumulativeTotal (handleUndoLast s))
   \<and> cumulativeTotal (run [PriceAdd 500, PriceAdd 500, PriceAdd 500, PriceAdd 500, PriceAdd 500,
        PriceAdd 500, UndoLast, UndoLast, UndoLast, UndoLast, UndoLast, UndoLast] (mount h)) = 500"
proof -
  have "cumulative_inv (presses evs (mount h))"
    by (rule presses_cumulative_inv) (rule mount_cumulative_inv)
  then have "length (recentAdditions (presses evs (mount h))) \<le> 5
      \<and> 0 \<le> cumulativeTotal (presses evs (mount h))"
    by (simp add: cumulative_inv_def)
  moreover have "length (recentAdditions (handlePriceAdd v s)) \<le> 5"
    by (simp add: handlePriceAdd_def slice_last4_def)
  moreover have "(recentAdditions s \<noteq> [] \<longrightarrow> 0 \<le> cumulativeTotal (handleUndoLast s))
      \<and> (0 \<le> cumulativeTotal s \<longrightarrow> 0 \<le> cumulativeTotal (handleUndoLast s))"
    by (simp add: handleUndoLast_def Let_def)
  ultimately show ?thesis
    using adds_history [of vs h] six_adds_six_undos [of h] by simp
qed

text \<open>
Witness for C10: one addition undone, and seven additions of which five are kept.
\<close>

theorem undo_history_bounded_witness:
  "recentAdditions (handlePriceAdd 500 (mount False)) \<noteq> []
   \<and> 0 \<le> cumulativeTotal (handlePriceAdd 500 (mount False))
   \<and> 0 \<le> cumulativeTotal (handleUndoLast (handlePriceAdd 500 (mount False)))
   \<and> recentAdditions (run (map PriceAdd [1, 2, 3, 4, 5, 6, 7]) (mount False)) = [3, 4, 5, 6, 7]"
proof -
  have a: "recentAdditions (handlePriceAdd 500 (mount False)) \<noteq> []"
    by (simp add: handlePriceAdd_def)
  have b: "0 \<le> cumulativeTotal (handlePriceAdd 500 (mount False))"
    by (simp add: handlePriceAdd_def mount_fields)
  from a b undo_history_bounded [of "[1, 2, 3, 4, 5, 6, 7]" False 0 "handlePriceAdd 500 (mount False)" "[]"]
  show ?thesis by simp
qed

end
